theory Spec2Isabelle
  imports Complex_Main "HOL-Library.Word"
begin

unbundle bit_operations_syntax

section \<open>The depthmap toolkit (depthmap.py)\<close>

text \<open>
  This theory embeds the geometric pipeline of \<^verbatim>\<open>src/common/depthmap_toolkit/depthmap.py\<close>:
  the depth decoder, the smoothing filter, the constructor of \<^verbatim>\<open>Depthmap\<close>, the projections,
  the normal estimator, the floor detector, the flood fill of \<^verbatim>\<open>detect_objects\<close> and
  \<^verbatim>\<open>segment_child\<close>.

  Numbers. Python's \<^verbatim>\<open>int\<close> is \<^typ>\<open>int\<close>. A float is an exact \<^typ>\<open>real\<close>: rounding is not
  modelled. Where numpy divides by zero it raises nothing and yields an infinity or a NaN;
  such a non-finite float is the value \<^term>\<open>None\<close> of \<^typ>\<open>real option\<close>, and every
  array that can hold one (the oriented points, the normals) has cells of that type.
  A Python exception is a value \<^term>\<open>Inl e\<close> of a sum type.
\<close>

subsection \<open>Exceptions and two-dimensional arrays\<close>

datatype error =
  AssertionError | IndexError | ValueError | ZeroDivisionError | RuntimeError

definition bindE :: "error + 'a \<Rightarrow> ('a \<Rightarrow> error + 'b) \<Rightarrow> error + 'b" where
  "bindE m f = (case m of Inl e \<Rightarrow> Inl e | Inr a \<Rightarrow> f a)"

text \<open>
  A numpy array of shape \<^verbatim>\<open>(dim0, dim1)\<close>: \<open>dim0\<close> rows of \<open>dim1\<close> cells each, the first
  index choosing the row. The cell \<open>(x, y)\<close> belongs to the array when \<open>x < dim0\<close> and
  \<open>y < dim1\<close>.
\<close>

record 'a ndarray =
  dim0 :: nat
  dim1 :: nat
  rows :: "'a list list"

definition cells :: "'a ndarray \<Rightarrow> nat \<times> nat \<Rightarrow> 'a" where
  "cells a p = rows a ! fst p ! snd p"

definition in_grid :: "'a ndarray \<Rightarrow> nat \<times> nat \<Rightarrow> bool" where
  "in_grid a p = (fst p < dim0 a \<and> snd p < dim1 a)"

text \<open>Every numpy array is rectangular; the arrays built below are.\<close>

definition rectangular :: "'a ndarray \<Rightarrow> bool" where
  "rectangular a = (length (rows a) = dim0 a \<and> (\<forall>r \<in> set (rows a). length r = dim1 a))"

text \<open>The array of shape \<open>(w, h)\<close> whose cell \<open>(x, y)\<close> is \<open>f (x, y)\<close>.\<close>

definition tabulate :: "nat \<Rightarrow> nat \<Rightarrow> (nat \<times> nat \<Rightarrow> 'a) \<Rightarrow> 'a ndarray" where
  "tabulate w h f =
     \<lparr>dim0 = w, dim1 = h, rows = map (\<lambda>x. map (\<lambda>y. f (x, y)) [0..<h]) [0..<w]\<rparr>"

text \<open>\<^verbatim>\<open>np.zeros((w, h))\<close>: a negative dimension raises ValueError.\<close>

definition np_zeros :: "int \<Rightarrow> int \<Rightarrow> error + ('a::zero) ndarray" where
  "np_zeros w h =
     (if w < 0 \<or> h < 0 then Inl ValueError
      else Inr (tabulate (nat w) (nat h) (\<lambda>_. 0)))"

text \<open>
  An index \<open>i\<close> on an axis of length \<open>n\<close>: \<open>0 \<le> i < n\<close> is itself, \<open>-n \<le> i < 0\<close> counts
  from the end, anything else raises IndexError.
\<close>

definition norm_index :: "nat \<Rightarrow> int \<Rightarrow> error + nat" where
  "norm_index n i =
     (if 0 \<le> i \<and> i < int n then Inr (nat i)
      else if - int n \<le> i \<and> i < 0 then Inr (nat (i + int n))
      else Inl IndexError)"

definition getitem :: "'a ndarray \<Rightarrow> int \<Rightarrow> int \<Rightarrow> error + 'a" where
  "getitem a i j =
     bindE (norm_index (dim0 a) i) (\<lambda>x.
     bindE (norm_index (dim1 a) j) (\<lambda>y. Inr (cells a (x, y))))"

definition setitem :: "'a ndarray \<Rightarrow> int \<Rightarrow> int \<Rightarrow> 'a \<Rightarrow> error + 'a ndarray" where
  "setitem a i j v =
     bindE (norm_index (dim0 a) i) (\<lambda>x.
     bindE (norm_index (dim1 a) j) (\<lambda>y. Inr (a\<lparr>rows := (rows a)[x := (rows a ! x)[y := v]]\<rparr>)))"

text \<open>\<^verbatim>\<open>range(n)\<close>, and a \<^verbatim>\<open>for\<close> loop whose body may raise.\<close>

definition py_range :: "int \<Rightarrow> int list" where
  "py_range n = map int [0..<nat n]"

primrec for_each :: "'i list \<Rightarrow> ('i \<Rightarrow> 's \<Rightarrow> error + 's) \<Rightarrow> 's \<Rightarrow> error + 's" where
  "for_each [] body s = Inr s"
| "for_each (i # rest) body s = bindE (body i s) (for_each rest body)"

subsection \<open>Depth buffer decoder\<close>

text \<open>\<^verbatim>\<open>data[i]\<close> on \<^verbatim>\<open>bytes\<close>: an int in \<open>0..255\<close>, or IndexError.\<close>

definition bytes_getitem :: "8 word list \<Rightarrow> int \<Rightarrow> error + int" where
  "bytes_getitem data i =
     bindE (norm_index (length data) i) (\<lambda>k. Inr (uint (data ! k)))"

text \<open>
  \<^verbatim>\<open>_parse_depth(self, data, tx, ty)\<close>. It reads \<^verbatim>\<open>self.width\<close>, \<^verbatim>\<open>self.height\<close> and
  \<^verbatim>\<open>self.depth_scale\<close>, which the constructor has set before it decodes; they are the first
  three arguments here.
\<close>

definition parse_depth :: "int \<Rightarrow> int \<Rightarrow> real \<Rightarrow> 8 word list \<Rightarrow> int \<Rightarrow> int \<Rightarrow> error + real" where
  "parse_depth width height depth_scale data tx ty =
     (if tx < 1 \<or> ty < 1 \<or> tx \<ge> width \<or> ty \<ge> height then Inr 0
      else
        bindE (bytes_getitem data ((ty * width + tx) * 3 + 0)) (\<lambda>b0.
        bindE (bytes_getitem data ((ty * width + tx) * 3 + 1)) (\<lambda>b1.
          Inr (real_of_int (push_bit 8 b0 + b1) * depth_scale))))"

text \<open>\<^verbatim>\<open>_parse_depth_data(self, data)\<close>: the two nested \<^verbatim>\<open>for\<close> statements fill \<^verbatim>\<open>output[x, y]\<close>.\<close>

definition parse_depth_data :: "int \<Rightarrow> int \<Rightarrow> real \<Rightarrow> 8 word list \<Rightarrow> error + real ndarray" where
  "parse_depth_data width height depth_scale data =
     bindE (np_zeros width height) (\<lambda>output.
       for_each (py_range width) (\<lambda>x output.
         for_each (py_range height) (\<lambda>y output.
           bindE (parse_depth width height depth_scale data x y) (\<lambda>v.
             setitem output x y v)) output) output)"

text \<open>
  \<^verbatim>\<open>_parse_confidence\<close> divides a Python int by \<^verbatim>\<open>self.max_confidence\<close>, a Python float:
  a zero divisor raises ZeroDivisionError.
\<close>

definition parse_confidence :: "int \<Rightarrow> real \<Rightarrow> 8 word list \<Rightarrow> int \<Rightarrow> int \<Rightarrow> error + real" where
  "parse_confidence width max_confidence data tx ty =
     bindE (bytes_getitem data ((ty * width + tx) * 3 + 2)) (\<lambda>b.
       if max_confidence = 0 then Inl ZeroDivisionError
       else Inr (real_of_int b / max_confidence))"

definition parse_confidence_data :: "int \<Rightarrow> int \<Rightarrow> real \<Rightarrow> 8 word list \<Rightarrow> error + real ndarray" where
  "parse_confidence_data width height max_confidence data =
     bindE (np_zeros width height) (\<lambda>output.
       for_each (py_range width) (\<lambda>x output.
         for_each (py_range height) (\<lambda>y output.
           bindE (parse_confidence width max_confidence data x y) (\<lambda>v.
             setitem output x y v)) output) output)"

subsection \<open>Smoothing filter\<close>

text \<open>
  \<^verbatim>\<open>scipy.ndimage.convolve(image_arr, conv_filter)\<close> with its default boundary mode
  \<^verbatim>\<open>reflect\<close>: an index one step outside an axis is mirrored to the nearest cell inside
  (\<open>-1\<close> to \<open>0\<close>, \<open>n\<close> to \<open>n - 1\<close>). The library is not part of the repository; this is its
  documented behaviour for a 3x3 kernel.
\<close>

definition reflect_index :: "nat \<Rightarrow> int \<Rightarrow> nat" where
  "reflect_index n i =
     (if i < 0 then nat (- i - 1) else if int n \<le> i then nat (2 * int n - 1 - i) else nat i)"

definition ndimage_convolve :: "real ndarray \<Rightarrow> real list list \<Rightarrow> real ndarray" where
  "ndimage_convolve a k =
     tabulate (dim0 a) (dim1 a) (\<lambda>(x, y).
        (\<Sum>i\<leftarrow>[0, 1, 2]. \<Sum>j\<leftarrow>[0, 1, 2].
           k ! i ! j * cells a (reflect_index (dim0 a) (int x + 1 - int i),
                                reflect_index (dim1 a) (int y + 1 - int j))))"

definition conv_filter :: "real list list" where
  "conv_filter =
     (let f = [[0, 1, 0], [1, 1, 1], [0, 1, 0]]; s = sum_list (concat f)
      in map (map (\<lambda>v. v / s)) f)"

text \<open>
  \<^verbatim>\<open>smoothen_depthmap_array\<close>. The five boolean arrays: \<^verbatim>\<open>smooth_right[1:, :] = smooth_center[:-1, :]\<close>
  makes \<open>smooth_right[x, y] = smooth_center[x - 1, y]\<close> for \<open>x \<ge> 1\<close> and leaves row \<open>0\<close>
  False, and so on.
\<close>

definition smooth_center :: "real ndarray \<Rightarrow> nat \<times> nat \<Rightarrow> bool" where
  "smooth_center image_arr p = (cells image_arr p = 0)"

definition smooth_right :: "real ndarray \<Rightarrow> nat \<times> nat \<Rightarrow> bool" where
  "smooth_right image_arr p = (1 \<le> fst p \<and> smooth_center image_arr (fst p - 1, snd p))"

definition smooth_left :: "real ndarray \<Rightarrow> nat \<times> nat \<Rightarrow> bool" where
  "smooth_left image_arr p = (fst p + 1 < dim0 image_arr \<and> smooth_center image_arr (fst p + 1, snd p))"

definition smooth_up :: "real ndarray \<Rightarrow> nat \<times> nat \<Rightarrow> bool" where
  "smooth_up image_arr p = (1 \<le> snd p \<and> smooth_center image_arr (fst p, snd p - 1))"

definition smooth_down :: "real ndarray \<Rightarrow> nat \<times> nat \<Rightarrow> bool" where
  "smooth_down image_arr p = (snd p + 1 < dim1 image_arr \<and> smooth_center image_arr (fst p, snd p + 1))"

definition smoothen_depthmap_array :: "real ndarray \<Rightarrow> real ndarray" where
  "smoothen_depthmap_array image_arr =
     (let smooth_image_arr = ndimage_convolve image_arr conv_filter;
          mask = (\<lambda>p. smooth_center image_arr p \<or> smooth_right image_arr p \<or> smooth_left image_arr p
                     \<or> smooth_up image_arr p \<or> smooth_down image_arr p)
      in tabulate (dim0 smooth_image_arr) (dim1 smooth_image_arr)
           (\<lambda>p. if mask p then 0 else cells smooth_image_arr p))"

subsection \<open>The Depthmap and its constructor\<close>

text \<open>
  The fields of \<^verbatim>\<open>Depthmap\<close> that the operations below read. \<^verbatim>\<open>rgb_fpath\<close> and
  \<^verbatim>\<open>rgb_array\<close> are stored by the constructor and read by none of them; they are left out.
\<close>

record Depthmap =
  width :: int
  height :: int
  intrinsics :: "real ndarray"
  sensor :: int
  fx :: real
  fy :: real
  cx :: real
  cy :: real
  depth_scale :: real
  max_confidence :: real
  device_pose :: "real list option"
  device_pose_arr :: "real ndarray"
  depthmap_arr :: "real ndarray"
  depthmap_arr_smooth :: "real ndarray"
  confidence_arr :: "real ndarray option"

text \<open>
  \<^verbatim>\<open>np.array(intrinsics)\<close> on a list of rows. Rows of different lengths do not make a
  two-dimensional array: numpy raises ValueError (before version 1.24 the indexing
  \<^verbatim>\<open>self.intrinsics[self.sensor, 0]\<close> that follows raised instead).
\<close>

definition np_array :: "real list list \<Rightarrow> error + real ndarray" where
  "np_array rws =
     (case rws of
        [] \<Rightarrow> Inr \<lparr>dim0 = 0, dim1 = 0, rows = []\<rparr>
      | r # rs \<Rightarrow>
          if \<forall>r' \<in> set rs. length r' = length r
          then Inr \<lparr>dim0 = length rws, dim1 = length r, rows = rws\<rparr>
          else Inl ValueError)"

text \<open>
  \<^verbatim>\<open>np.array(device_pose).reshape(4, 4).T\<close>: anything but sixteen numbers (also \<^verbatim>\<open>None\<close>)
  cannot be reshaped, a ValueError; the transposition makes the list column-major.
\<close>

definition reshape_pose :: "real list option \<Rightarrow> error + real ndarray" where
  "reshape_pose pose =
     (case pose of
        None \<Rightarrow> Inl ValueError
      | Some l \<Rightarrow>
          if length l = 16
          then Inr (tabulate 4 4 (\<lambda>(r, c). l ! (c * 4 + r)))
          else Inl ValueError)"

text \<open>
  \<^verbatim>\<open>Depthmap.__init__\<close>, in the order of its statements. \<^verbatim>\<open>if data\<close> is the truth value
  of an optional \<^verbatim>\<open>bytes\<close>: False for \<^verbatim>\<open>None\<close> and for the empty buffer. With no depth array
  at all, \<^verbatim>\<open>smoothen_depthmap_array(None)\<close> raises inside the convolution (scipy's
  RuntimeError for an input that is not two-dimensional).
\<close>

definition truthy :: "8 word list option \<Rightarrow> bool" where
  "truthy data = (case data of None \<Rightarrow> False | Some bs \<Rightarrow> bs \<noteq> [])"

definition Depthmap_init ::
  "real list list \<Rightarrow> int \<Rightarrow> int \<Rightarrow> 8 word list option \<Rightarrow> real ndarray option \<Rightarrow> real \<Rightarrow> real
     \<Rightarrow> real list option \<Rightarrow> error + Depthmap" where
  "Depthmap_init intrinsics_arg width_arg height_arg data depthmap_arr_arg depth_scale_arg
       max_confidence_arg device_pose_arg =
     bindE (np_array intrinsics_arg) (\<lambda>intr.
     bindE (getitem intr 1 0) (\<lambda>i0.
     bindE (getitem intr 1 1) (\<lambda>i1.
     bindE (getitem intr 1 2) (\<lambda>i2.
     bindE (getitem intr 1 3) (\<lambda>i3.
     bindE (reshape_pose device_pose_arg) (\<lambda>pose_arr.
     if \<not> (depthmap_arr_arg = None \<or> data = None) then Inl AssertionError
     else
       bindE (if truthy data
              then map_sum id Some (parse_depth_data width_arg height_arg depth_scale_arg (the data))
              else Inr depthmap_arr_arg) (\<lambda>arr_opt.
       bindE (case arr_opt of None \<Rightarrow> Inl RuntimeError
              | Some arr \<Rightarrow> Inr (arr, smoothen_depthmap_array arr)) (\<lambda>(arr, arr_smooth).
       bindE (if truthy data
              then map_sum id Some
                     (parse_confidence_data width_arg height_arg max_confidence_arg (the data))
              else Inr None) (\<lambda>conf.
         Inr \<lparr>width = width_arg, height = height_arg, intrinsics = intr, sensor = 1,
              fx = i0 * real_of_int width_arg, fy = i1 * real_of_int height_arg,
              cx = i2 * real_of_int width_arg, cy = i3 * real_of_int height_arg,
              depth_scale = depth_scale_arg, max_confidence = max_confidence_arg,
              device_pose = device_pose_arg, device_pose_arr = pose_arr,
              depthmap_arr = arr, depthmap_arr_smooth = arr_smooth,
              confidence_arr = conf\<rparr>)))))))))"

subsection \<open>Projections\<close>

text \<open>
  Floats that may be non-finite. The arithmetic of numpy on them: a sum, a difference or
  a product with a non-finite operand is non-finite, and so is a quotient by zero.
\<close>

type_synonym npfloat = "real option"

definition nf_neg :: "npfloat \<Rightarrow> npfloat" where
  "nf_neg a = map_option uminus a"

definition nf_add :: "npfloat \<Rightarrow> npfloat \<Rightarrow> npfloat" where
  "nf_add a b = (case (a, b) of (Some x, Some y) \<Rightarrow> Some (x + y) | _ \<Rightarrow> None)"

definition nf_sub :: "npfloat \<Rightarrow> npfloat \<Rightarrow> npfloat" where
  "nf_sub a b = (case (a, b) of (Some x, Some y) \<Rightarrow> Some (x - y) | _ \<Rightarrow> None)"

definition nf_mul :: "npfloat \<Rightarrow> npfloat \<Rightarrow> npfloat" where
  "nf_mul a b = (case (a, b) of (Some x, Some y) \<Rightarrow> Some (x * y) | _ \<Rightarrow> None)"

definition nf_abs :: "npfloat \<Rightarrow> npfloat" where
  "nf_abs a = map_option abs a"

text \<open>
  A quotient by a non-finite divisor is taken as non-finite too. Numpy gives \<open>0\<close> for a
  finite numerator over an infinity; this happens below only inside \<open>normalize\<close>, on a
  vector with a non-finite component, whose quotient has a NaN component anyway and
  passes no comparison.
\<close>

definition nf_div :: "npfloat \<Rightarrow> npfloat \<Rightarrow> npfloat" where
  "nf_div a b = (case (a, b) of (Some x, Some y) \<Rightarrow> if y = 0 then None else Some (x / y) | _ \<Rightarrow> None)"

type_synonym vec3 = "npfloat \<times> npfloat \<times> npfloat"

text \<open>
  \<^verbatim>\<open>convert_2d_to_3d(self, sensor, x, y, depth)\<close>: the intrinsics are numpy floats, so a
  zero \<open>fx\<close> or \<open>fy\<close> raises nothing.
\<close>

definition convert_2d_to_3d :: "Depthmap \<Rightarrow> int \<Rightarrow> real \<Rightarrow> real \<Rightarrow> real \<Rightarrow> error + vec3" where
  "convert_2d_to_3d d sensor_arg x y depth =
     bindE (getitem (intrinsics d) sensor_arg 0) (\<lambda>i0.
     bindE (getitem (intrinsics d) sensor_arg 1) (\<lambda>i1.
     bindE (getitem (intrinsics d) sensor_arg 2) (\<lambda>i2.
     bindE (getitem (intrinsics d) sensor_arg 3) (\<lambda>i3.
       let fx' = i0 * real_of_int (width d); fy' = i1 * real_of_int (height d);
           cx' = i2 * real_of_int (width d); cy' = i3 * real_of_int (height d);
           tx = nf_div (Some ((x - cx') * depth)) (Some fx');
           ty = nf_div (Some ((y - cy') * depth)) (Some fy')
       in Inr (tx, ty, Some depth)))))"

text \<open>
  \<^verbatim>\<open>convert_3d_to_2d(intrinsics, x, y, depth, width, height)\<close>, a module-level function on
  Python floats and a Python list: an index past the list raises IndexError, a zero
  \<open>depth\<close> raises ZeroDivisionError.
\<close>

definition list_getitem :: "'a list \<Rightarrow> int \<Rightarrow> error + 'a" where
  "list_getitem l i = bindE (norm_index (length l) i) (\<lambda>k. Inr (l ! k))"

definition convert_3d_to_2d ::
  "real list \<Rightarrow> real \<Rightarrow> real \<Rightarrow> real \<Rightarrow> int \<Rightarrow> int \<Rightarrow> error + real list" where
  "convert_3d_to_2d intrinsics_row x y depth width_arg height_arg =
     bindE (list_getitem intrinsics_row 0) (\<lambda>i0.
     bindE (list_getitem intrinsics_row 1) (\<lambda>i1.
     bindE (list_getitem intrinsics_row 2) (\<lambda>i2.
     bindE (list_getitem intrinsics_row 3) (\<lambda>i3.
       let fx' = i0 * real_of_int width_arg; fy' = i1 * real_of_int height_arg;
           cx' = i2 * real_of_int width_arg; cy' = i3 * real_of_int height_arg
       in if depth = 0 then Inl ZeroDivisionError
          else Inr [x * fx' / depth + cx', y * fy' / depth + cy', depth]))))"

definition shape_is :: "'a ndarray \<Rightarrow> int \<Rightarrow> int \<Rightarrow> bool" where
  "shape_is a w h = (int (dim0 a) = w \<and> int (dim1 a) = h)"

text \<open>
  \<^verbatim>\<open>convert_2d_to_3d_oriented(self, should_smooth)\<close>. The result has shape
  \<^verbatim>\<open>(3, width, height)\<close>; here it is an array of shape \<^verbatim>\<open>(width, height)\<close> whose cell is the
  vector \<open>(res[0, x, y], res[1, x, y], res[2, x, y])\<close>. A depth array of another shape than
  \<^verbatim>\<open>(width, height)\<close> fails in the broadcast or in \<^verbatim>\<open>np.stack\<close>, a ValueError both times.
  Only rows 0 and 1 are divided by \<open>|w|\<close>.
\<close>

definition matmul_row :: "real ndarray \<Rightarrow> nat \<Rightarrow> npfloat list \<Rightarrow> npfloat" where
  "matmul_row m r v =
     foldl nf_add (nf_mul (Some (cells m (r, 0))) (v ! 0))
       (map (\<lambda>c. nf_mul (Some (cells m (r, c))) (v ! c)) [1, 2, 3])"

definition oriented_point :: "Depthmap \<Rightarrow> real ndarray \<Rightarrow> nat \<times> nat \<Rightarrow> vec3" where
  "oriented_point d depth p =
     (let dep = cells depth p;
          tx = nf_div (Some (dep * (real (fst p) - cx d))) (Some (fx d));
          ty = nf_div (Some (dep * (real (snd p) - cy d))) (Some (fy d));
          res = [nf_neg tx, ty, Some dep, Some 1];
          out0 = matmul_row (device_pose_arr d) 0 res;
          out1 = matmul_row (device_pose_arr d) 1 res;
          out2 = matmul_row (device_pose_arr d) 2 res;
          out3 = matmul_row (device_pose_arr d) 3 res
      in (nf_div out0 (nf_abs out3), nf_neg (nf_div out1 (nf_abs out3)), out2))"

definition convert_2d_to_3d_oriented :: "Depthmap \<Rightarrow> bool \<Rightarrow> error + vec3 ndarray" where
  "convert_2d_to_3d_oriented d should_smooth =
     (let depth = (if should_smooth then depthmap_arr_smooth d else depthmap_arr d)
      in if \<not> shape_is depth (width d) (height d) then Inl ValueError
         else Inr (tabulate (dim0 depth) (dim1 depth) (oriented_point d depth)))"

subsection \<open>Normal estimator\<close>

definition vec_sub :: "vec3 \<Rightarrow> vec3 \<Rightarrow> vec3" where
  "vec_sub a b =
     (case (a, b) of ((a0, a1, a2), (b0, b1, b2)) \<Rightarrow> (nf_sub a0 b0, nf_sub a1 b1, nf_sub a2 b2))"

text \<open>\<^verbatim>\<open>np.cross\<close> of two vectors.\<close>

definition np_cross :: "vec3 \<Rightarrow> vec3 \<Rightarrow> vec3" where
  "np_cross u v =
     (case (u, v) of ((u0, u1, u2), (v0, v1, v2)) \<Rightarrow>
        (nf_sub (nf_mul u1 v2) (nf_mul u2 v1),
         nf_sub (nf_mul u2 v0) (nf_mul u0 v2),
         nf_sub (nf_mul u0 v1) (nf_mul u1 v0)))"

text \<open>
  \<^verbatim>\<open>normalize(vectors)\<close>, on one column of the array. A zero vector has length \<open>0\<close> and
  becomes NaN in every component.
\<close>

definition normalize :: "vec3 \<Rightarrow> vec3" where
  "normalize v =
     (case v of (v0, v1, v2) \<Rightarrow>
        let length = nf_add (nf_add (nf_abs v0) (nf_abs v1)) (nf_abs v2)
        in (nf_div v0 length, nf_div v1 length, nf_div v2 length))"

text \<open>
  \<^verbatim>\<open>calculate_normalmap_array(self, points_3d_arr)\<close>. The three slices of the points are
  flattened by \<^verbatim>\<open>reshape(3, dim_w * dim_h)\<close> and the normals are folded back by
  \<^verbatim>\<open>reshape(3, dim_w, dim_h)\<close>, both in row-major order: output cell \<open>(x, y)\<close> with
  \<open>x, y \<ge> 1\<close> holds the flat element \<open>k = (x - 1) * dim_h + (y - 1)\<close>, which is the element
  \<open>(k div (b - 1), k mod (b - 1))\<close> of a slice of points of shape \<open>(a, b)\<close>. A slice with
  another number of elements cannot be reshaped, a ValueError.

  For an image with \<open>width < 1\<close> or \<open>height < 1\<close> the reshapes get a non-positive or negative
  dimension and numpy either raises or returns an array without any cell; the model
  takes the ValueError.
\<close>

definition normal_at :: "Depthmap \<Rightarrow> vec3 ndarray \<Rightarrow> nat \<times> nat \<Rightarrow> vec3" where
  "normal_at d points_3d_arr p =
     (if 1 \<le> fst p \<and> 1 \<le> snd p then
        let dim_h = nat (height d - 1); sl_h = dim1 points_3d_arr - 1;
            k = (fst p - 1) * dim_h + (snd p - 1);
            i = k div sl_h; j = k mod sl_h;
            depth_center = cells points_3d_arr (i + 1, j + 1);
            depth_x_minus = cells points_3d_arr (i, j + 1);
            depth_y_minus = cells points_3d_arr (i + 1, j);
            vector_u = vec_sub depth_center depth_x_minus;
            vector_v = vec_sub depth_center depth_y_minus
        in normalize (np_cross vector_u vector_v)
      else (Some 0, Some 0, Some 0))"

definition calculate_normalmap_array :: "Depthmap \<Rightarrow> vec3 ndarray \<Rightarrow> error + vec3 ndarray" where
  "calculate_normalmap_array d points_3d_arr =
     (if width d < 1 \<or> height d < 1 then Inl ValueError
      else
        let dim_w = nat (width d - 1); dim_h = nat (height d - 1);
            sl_w = dim0 points_3d_arr - 1; sl_h = dim1 points_3d_arr - 1
        in if sl_w * sl_h \<noteq> dim_w * dim_h then Inl ValueError
           else Inr (tabulate (nat (width d)) (nat (height d)) (normal_at d points_3d_arr)))"

subsection \<open>Floor detector\<close>

text \<open>
  \<^verbatim>\<open>MASK_FLOOR\<close>, \<^verbatim>\<open>MASK_CHILD\<close> and \<^verbatim>\<open>MASK_INVALID\<close> come from
  \<^verbatim>\<open>common/depthmap_toolkit/constants.py\<close>, which is not among the sources: they are a
  parameter of every operation that uses them. The mask is a float array that only ever
  holds these constants, \<open>0\<close> and segment ids; its cells are integers here.
\<close>

record mask_constants =
  MASK_FLOOR :: int
  MASK_CHILD :: int
  MASK_INVALID :: int

text \<open>A comparison with a NaN is False.\<close>

definition nf_greater :: "npfloat \<Rightarrow> real \<Rightarrow> bool" where
  "nf_greater a c = (case a of None \<Rightarrow> False | Some x \<Rightarrow> x > c)"

definition nf_less :: "npfloat \<Rightarrow> real \<Rightarrow> bool" where
  "nf_less a c = (case a of None \<Rightarrow> False | Some x \<Rightarrow> x < c)"

definition vec_y :: "vec3 \<Rightarrow> npfloat" where
  "vec_y v = fst (snd v)"

definition normal_cond :: "vec3 ndarray \<Rightarrow> nat \<times> nat \<Rightarrow> bool" where
  "normal_cond normal p = nf_greater (nf_abs (vec_y (cells normal p))) 0.5"

definition height_cond :: "vec3 ndarray \<Rightarrow> real \<Rightarrow> nat \<times> nat \<Rightarrow> bool" where
  "height_cond points_3d_arr floor_arg p =
     nf_less (nf_sub (vec_y (cells points_3d_arr p)) (Some floor_arg)) 0.1"

definition detect_floor :: "mask_constants \<Rightarrow> Depthmap \<Rightarrow> real \<Rightarrow> error + int ndarray" where
  "detect_floor K d floor_arg =
     bindE (np_zeros (width d) (height d)) (\<lambda>mask0.
       if \<not> shape_is (depthmap_arr_smooth d) (width d) (height d) then Inl AssertionError
       else
         let mask1 = tabulate (dim0 mask0) (dim1 mask0)
                       (\<lambda>p. if cells (depthmap_arr_smooth d) p = 0
                            then MASK_INVALID K else cells mask0 p)
         in bindE (convert_2d_to_3d_oriented d True) (\<lambda>points_3d_arr.
            bindE (calculate_normalmap_array d points_3d_arr) (\<lambda>normal.
              Inr (tabulate (dim0 mask1) (dim1 mask1)
                     (\<lambda>p. if normal_cond normal p \<and> height_cond points_3d_arr floor_arg p
                          then MASK_FLOOR K else cells mask1 p)))))"

text \<open>
  \<^verbatim>\<open>np.median\<close> of a selection: NaN for an empty one (and for one that holds a NaN), the
  middle element of the sorted values, or the mean of the two middle ones.
\<close>

definition np_median :: "npfloat list \<Rightarrow> npfloat" where
  "np_median sel =
     (if sel = [] \<or> None \<in> set sel then None
      else let xs = sort (map the sel); n = length xs
           in if odd n then Some (xs ! (n div 2))
              else Some ((xs ! (n div 2 - 1) + xs ! (n div 2)) / 2))"

text \<open>The cells of an array in row-major order, as boolean-mask indexing visits them.\<close>

definition row_major :: "'a ndarray \<Rightarrow> (nat \<times> nat) list" where
  "row_major a = List.product [0..<dim0 a] [0..<dim1 a]"

definition get_floor_level :: "Depthmap \<Rightarrow> error + npfloat" where
  "get_floor_level d =
     bindE (np_zeros (width d) (height d)) (\<lambda>mask0 :: int ndarray.
       if \<not> shape_is (depthmap_arr_smooth d) (width d) (height d) then Inl AssertionError
       else
         bindE (convert_2d_to_3d_oriented d True) (\<lambda>points_3d_arr.
         bindE (calculate_normalmap_array d points_3d_arr) (\<lambda>normal.
           let selection_of_points =
                 map (\<lambda>p. vec_y (cells points_3d_arr p))
                   (filter (normal_cond normal) (row_major points_3d_arr))
           in Inr (np_median selection_of_points))))"

subsection \<open>Object segmenter\<close>

record Segment =
  segment_id :: int
  aabb :: "int \<times> int \<times> int \<times> int"

text \<open>
  The state of one flood fill. The Python stack is a list that grows and shrinks at its
  end; here the head of \<open>fs_stack\<close> is that end.
\<close>

record fill_state =
  fs_mask :: "int ndarray"
  fs_aabb :: "int \<times> int \<times> int \<times> int"
  fs_stack :: "(int \<times> int) list"

definition dirs :: "(int \<times> int) list" where
  "dirs = [(-1, 0), (1, 0), (0, -1), (0, 1)]"

text \<open>
  The body of \<^verbatim>\<open>for direction in dirs\<close>: the depth of the neighbour is read before any
  test, and the neighbour is pushed whatever its label.
\<close>

definition push_neighbour ::
  "real ndarray \<Rightarrow> int \<times> int \<Rightarrow> real \<Rightarrow> int \<times> int \<Rightarrow> (int \<times> int) list
     \<Rightarrow> error + (int \<times> int) list" where
  "push_neighbour depth pixel depth_center direction stack =
     (let pixel_dir = (fst pixel + fst direction, snd pixel + snd direction)
      in bindE (getitem depth (fst pixel_dir) (snd pixel_dir)) (\<lambda>depth_dir.
           if depth_dir > 0 \<and> \<bar>depth_dir - depth_center\<bar> < 0.1
           then Inr (pixel_dir # stack) else Inr stack))"

definition push_neighbours ::
  "real ndarray \<Rightarrow> int \<times> int \<Rightarrow> real \<Rightarrow> (int \<times> int) list \<Rightarrow> error + (int \<times> int) list" where
  "push_neighbours depth pixel depth_center stack =
     for_each dirs (push_neighbour depth pixel depth_center) stack"

text \<open>One iteration of the \<^verbatim>\<open>while len(stack) > 0\<close> loop, after \<^verbatim>\<open>stack.pop()\<close>.\<close>

definition fill_step :: "real ndarray \<Rightarrow> int \<Rightarrow> int \<times> int \<Rightarrow> fill_state \<Rightarrow> error + fill_state" where
  "fill_step depth current_id pixel st =
     bindE (getitem depth (fst pixel) (snd pixel)) (\<lambda>depth_center.
     bindE (getitem (fs_mask st) (fst pixel) (snd pixel)) (\<lambda>m.
     bindE (if m = 0 then push_neighbours depth pixel depth_center (fs_stack st)
            else Inr (fs_stack st)) (\<lambda>stack.
     bindE (setitem (fs_mask st) (fst pixel) (snd pixel) current_id) (\<lambda>mask'.
       case fs_aabb st of (a0, a1, a2, a3) \<Rightarrow>
         Inr \<lparr>fs_mask = mask',
              fs_aabb = (min (fst pixel) a0, min (snd pixel) a1,
                         max (fst pixel) a2, max (snd pixel) a3),
              fs_stack = stack\<rparr>))))"

text \<open>
  The \<^verbatim>\<open>while\<close> loop. Nothing in its text bounds the number of iterations, so the result
  is an option: \<^term>\<open>None\<close> is a loop that runs forever. That it ends for every
  nonzero \<open>current_id\<close> is \<open>flood_fill_terminates\<close> below.
\<close>

partial_function (option) flood_fill ::
  "real ndarray \<Rightarrow> int \<Rightarrow> fill_state \<Rightarrow> (error + fill_state) option" where
  "flood_fill depth current_id st =
     (case fs_stack st of
        [] \<Rightarrow> Some (Inr st)
      | pixel # rest \<Rightarrow>
          (case fill_step depth current_id pixel (st\<lparr>fs_stack := rest\<rparr>) of
             Inl e \<Rightarrow> Some (Inl e)
           | Inr st' \<Rightarrow> flood_fill depth current_id st'))"

declare flood_fill.simps [code]

record scan_state =
  mask :: "int ndarray"
  segments :: "Segment list"
  current_id :: int

text \<open>The body of the two \<^verbatim>\<open>for\<close> statements of \<^verbatim>\<open>detect_objects\<close> at the pixel \<open>(x, y)\<close>.\<close>

definition scan_pixel :: "Depthmap \<Rightarrow> int \<Rightarrow> int \<Rightarrow> scan_state \<Rightarrow> (error + scan_state) option" where
  "scan_pixel d x y s =
     (case getitem (mask s) x y of
        Inl e \<Rightarrow> Some (Inl e)
      | Inr m \<Rightarrow>
          if m \<noteq> 0 then Some (Inr s)
          else
            (case flood_fill (depthmap_arr d) (current_id s)
                    \<lparr>fs_mask = mask s, fs_aabb = (x, y, x, y), fs_stack = [(x, y)]\<rparr> of
               None \<Rightarrow> None
             | Some (Inl e) \<Rightarrow> Some (Inl e)
             | Some (Inr st) \<Rightarrow>
                 (case fs_aabb st of (a0, a1, a2, a3) \<Rightarrow>
                    let object_size_pixels = max (a2 - a0) (a3 - a1)
                    in Some (Inr \<lparr>mask = fs_mask st,
                         segments =
                           (if real_of_int object_size_pixels > real_of_int (width d) / 4
                            then segments s @ [\<lparr>segment_id = current_id s, aabb = fs_aabb st\<rparr>]
                            else segments s),
                         current_id = current_id s - 1\<rparr>))))"

text \<open>A \<^verbatim>\<open>for\<close> loop whose body may raise or not return.\<close>

primrec for_each_opt ::
  "'i list \<Rightarrow> ('i \<Rightarrow> 's \<Rightarrow> (error + 's) option) \<Rightarrow> 's \<Rightarrow> (error + 's) option" where
  "for_each_opt [] body s = Some (Inr s)"
| "for_each_opt (i # rest) body s =
     (case body i s of
        None \<Rightarrow> None
      | Some (Inl e) \<Rightarrow> Some (Inl e)
      | Some (Inr s') \<Rightarrow> for_each_opt rest body s')"

definition detect_objects ::
  "mask_constants \<Rightarrow> Depthmap \<Rightarrow> real \<Rightarrow> (error + int ndarray \<times> Segment list) option" where
  "detect_objects K d floor_arg =
     (case detect_floor K d floor_arg of
        Inl e \<Rightarrow> Some (Inl e)
      | Inr mask0 \<Rightarrow>
          map_option (map_sum id (\<lambda>s. (mask s, segments s)))
            (for_each_opt (py_range (width d)) (\<lambda>x.
               for_each_opt (py_range (height d)) (\<lambda>y. scan_pixel d x y))
               \<lparr>mask = mask0, segments = [], current_id = -1\<rparr>))"

text \<open>
  \<^verbatim>\<open>segment_child\<close>. \<^verbatim>\<open>sys.maxsize\<close> is \<open>2^63 - 1\<close> on a 64-bit Python; \<^verbatim>\<open>int(...)\<close>
  truncates a float towards zero.
\<close>

definition sys_maxsize :: int where
  "sys_maxsize = 2 ^ 63 - 1"

definition int_of_float :: "real \<Rightarrow> int" where
  "int_of_float r = (if r \<ge> 0 then \<lfloor>r\<rfloor> else \<lceil>r\<rceil>)"

definition distance :: "Depthmap \<Rightarrow> Segment \<Rightarrow> int" where
  "distance d segment =
     (case aabb segment of (a0, a1, a2, a3) \<Rightarrow>
        let a = a0 - int_of_float (real_of_int (width d) / 2);
            b = a1 - int_of_float (real_of_int (height d) / 2);
            c = a2 - int_of_float (real_of_int (width d) / 2);
            e = a3 - int_of_float (real_of_int (height d) / 2)
        in a * a + b * b + c * c + e * e)"

text \<open>The selection loop: the state is the pair \<open>(closest, focus)\<close>.\<close>

definition select_step :: "Depthmap \<Rightarrow> Segment \<Rightarrow> int \<times> int \<Rightarrow> int \<times> int" where
  "select_step d segment cf =
     (case cf of (closest, focus) \<Rightarrow>
        if closest > distance d segment then (distance d segment, segment_id segment)
        else (closest, focus))"

definition select_focus :: "Depthmap \<Rightarrow> Segment list \<Rightarrow> int" where
  "select_focus d segs = snd (fold (select_step d) segs (sys_maxsize, -1))"

text \<open>\<^verbatim>\<open>np.where(mask == focus, MASK_CHILD, mask)\<close>.\<close>

definition np_where_eq :: "int ndarray \<Rightarrow> int \<Rightarrow> int \<Rightarrow> int ndarray" where
  "np_where_eq m focus v =
     tabulate (dim0 m) (dim1 m) (\<lambda>p. if cells m p = focus then v else cells m p)"

definition segment_child :: "mask_constants \<Rightarrow> Depthmap \<Rightarrow> real \<Rightarrow> (error + int ndarray) option" where
  "segment_child K d floor_arg =
     (case detect_objects K d floor_arg of
        None \<Rightarrow> None
      | Some (Inl e) \<Rightarrow> Some (Inl e)
      | Some (Inr (m, segs)) \<Rightarrow>
          Some (Inr (np_where_eq m (select_focus d segs) (MASK_CHILD K))))"

text \<open>
  The floor level as the specification words it: the median of the world-space y of the
  pixels that pass the floor test of \<^verbatim>\<open>detect_floor\<close> with a floor estimate of \<open>0\<close>. This
  definition follows the sentence of the specification, not the code; it is compared with
  \<open>get_floor_level\<close> below.
\<close>

definition get_floor_level_spec :: "Depthmap \<Rightarrow> error + npfloat" where
  "get_floor_level_spec d =
     bindE (np_zeros (width d) (height d)) (\<lambda>mask0 :: int ndarray.
       if \<not> shape_is (depthmap_arr_smooth d) (width d) (height d) then Inl AssertionError
       else
         bindE (convert_2d_to_3d_oriented d True) (\<lambda>points_3d_arr.
         bindE (calculate_normalmap_array d points_3d_arr) (\<lambda>normal.
           Inr (np_median
                 (map (\<lambda>p. vec_y (cells points_3d_arr p))
                   (filter (\<lambda>p. normal_cond normal p \<and> height_cond points_3d_arr 0 p)
                     (row_major points_3d_arr)))))))"

subsection \<open>Predicates of the proofs\<close>

text \<open>
  \<open>labels_kept cid m m'\<close>: the mask \<open>m'\<close> has the shape of \<open>m\<close> and differs from it only
  in cells that now hold \<open>cid\<close>. \<open>scan_inv fm s\<close>: the state of the scan started from the
  floor mask \<open>fm\<close> has a negative id counter and a mask whose cells are those of \<open>fm\<close> or
  negative.
\<close>

definition labels_kept :: "int \<Rightarrow> int ndarray \<Rightarrow> int ndarray \<Rightarrow> bool" where
  "labels_kept cid m m' =
     (rectangular m' \<and> dim0 m' = dim0 m \<and> dim1 m' = dim1 m
      \<and> (\<forall>q. in_grid m q \<longrightarrow> cells m' q = cells m q \<or> cells m' q = cid))"

definition scan_inv :: "int ndarray \<Rightarrow> scan_state \<Rightarrow> bool" where
  "scan_inv fm s =
     (rectangular (mask s) \<and> dim0 (mask s) = dim0 fm \<and> dim1 (mask s) = dim1 fm
      \<and> current_id s < 0
      \<and> (\<forall>q. in_grid fm q \<longrightarrow> cells (mask s) q = cells fm q \<or> cells (mask s) q < 0))"

text \<open>
  \<open>zeros m\<close> counts the unlabelled pixels of a mask, the measure of the flood fill.
  \<open>box_in W H bb\<close>: the corners of the bounding box are indices of an array of shape
  \<open>(W, H)\<close>, negative ones included. \<open>boxes_in fm s\<close>: so are the boxes of the segments
  recorded so far.
\<close>

definition zeros :: "int ndarray \<Rightarrow> nat" where
  "zeros m = card {q. in_grid m q \<and> cells m q = 0}"

definition box_in :: "nat \<Rightarrow> nat \<Rightarrow> int \<times> int \<times> int \<times> int \<Rightarrow> bool" where
  "box_in W H bb =
     (case bb of (a0, a1, a2, a3) \<Rightarrow>
        - int W \<le> a0 \<and> a0 < int W \<and> - int H \<le> a1 \<and> a1 < int H
      \<and> - int W \<le> a2 \<and> a2 < int W \<and> - int H \<le> a3 \<and> a3 < int H)"

definition boxes_in :: "int ndarray \<Rightarrow> scan_state \<Rightarrow> bool" where
  "boxes_in fm s = list_all (\<lambda>g. box_in (dim0 fm) (dim1 fm) (aabb g)) (segments s)"

subsection \<open>Worked inputs\<close>

text \<open>
  Modelled from the spec: the values of \<^verbatim>\<open>MASK_FLOOR\<close>, \<^verbatim>\<open>MASK_CHILD\<close> and \<^verbatim>\<open>MASK_INVALID\<close>
  (\<^verbatim>\<open>constants.py\<close> is not among the sources). The specification asks for small positive
  sentinels, one for the floor, one for invalid pixels and a distinguished one for the
  child; the worked inputs take three distinct ones.
\<close>

definition example_constants :: mask_constants where
  "example_constants = \<lparr>MASK_FLOOR = 1, MASK_CHILD = 2, MASK_INVALID = 3\<rparr>"

definition identity_pose :: "real list" where
  "identity_pose = [1, 0, 0, 0,  0, 1, 0, 0,  0, 0, 1, 0,  0, 0, 0, 1]"

definition array_of :: "'a list list \<Rightarrow> 'a ndarray" where
  "array_of rws = \<lparr>dim0 = length rws, dim1 = length (hd rws), rows = rws\<rparr>"

text \<open>
  A Depthmap built by the constructor from a depth array whose first axis is the width,
  with the identity pose, \<^verbatim>\<open>depth_scale = 0.001\<close> and \<^verbatim>\<open>max_confidence = 7.0\<close>.
\<close>

definition depthmap_of_array :: "real list list \<Rightarrow> real list list \<Rightarrow> error + Depthmap" where
  "depthmap_of_array calibration rws =
     Depthmap_init calibration (int (length rws)) (int (length (hd rws))) None
       (Some (array_of rws)) (1 / 1000) 7 (Some identity_pose)"

definition calibration_centre :: "real list list" where
  "calibration_centre = [[1 / 2, 1 / 2, 1 / 2, 1 / 2], [1 / 2, 1 / 2, 1 / 2, 1 / 2]]"

definition calibration_low :: "real list list" where
  "calibration_low = [[1 / 2, 1 / 2, 0, 1], [1 / 2, 1 / 2, 0, 1]]"

text \<open>
  Five frames. \<open>cross_frame\<close>: a plus-shaped patch of depth 1 m, no measurement in the
  corners. \<open>speck_frame\<close>: one near pixel before a farther surface, one corner without
  measurement. \<open>wall_frame\<close>: a flat surface that fills the frame. \<open>slope_frame\<close>: a
  surface that recedes along the second axis. \<open>trio_frame\<close>: three patches at depths of
  1 m, 2 m and 3 m along the middle row of a 3x7 image, the first at its low end, the other
  two at equal distances on either side of the centre.
\<close>

definition cross_frame :: "error + Depthmap" where
  "cross_frame = depthmap_of_array calibration_centre [[0, 1, 0], [1, 1, 1], [0, 1, 0]]"

definition speck_frame :: "error + Depthmap" where
  "speck_frame = depthmap_of_array calibration_centre [[1, 2], [2, 0]]"

definition wall_frame :: "error + Depthmap" where
  "wall_frame = depthmap_of_array calibration_centre [[1, 1], [1, 1]]"

definition slope_frame :: "error + Depthmap" where
  "slope_frame = depthmap_of_array calibration_low [[1, 6], [1, 6]]"

definition trio_frame :: "error + Depthmap" where
  "trio_frame = depthmap_of_array calibration_centre
     [[0, 1, 2, 0, 3, 0, 0],
      [1, 1, 2, 5, 3, 7, 0],
      [0, 1, 2, 0, 3, 0, 0]]"

text \<open>A buffer of twelve bytes, the body of a 2x2 capture.\<close>

definition example_buffer :: "8 word list" where
  "example_buffer = [0, 0, 0,  0, 0, 0,  0, 0, 0,  1, 2, 7]"

text \<open>
  Results as nested lists (\<^verbatim>\<open>tolist()\<close>), for a constructed Depthmap or the error of its
  construction.
\<close>

definition floor_mask_of :: "mask_constants \<Rightarrow> error + Depthmap \<Rightarrow> real \<Rightarrow> error + int list list" where
  "floor_mask_of K dm floor_arg = bindE dm (\<lambda>d. map_sum id rows (detect_floor K d floor_arg))"

definition objects_of ::
  "mask_constants \<Rightarrow> error + Depthmap \<Rightarrow> real \<Rightarrow> (error + int list list \<times> Segment list) option" where
  "objects_of K dm floor_arg =
     (case dm of
        Inl e \<Rightarrow> Some (Inl e)
      | Inr d \<Rightarrow> map_option (map_sum id (\<lambda>r. (rows (fst r), snd r))) (detect_objects K d floor_arg))"

definition normals_of :: "error + Depthmap \<Rightarrow> error + vec3 list list" where
  "normals_of dm =
     bindE dm (\<lambda>d.
     bindE (convert_2d_to_3d_oriented d True) (\<lambda>points_3d_arr.
       map_sum id rows (calculate_normalmap_array d points_3d_arr)))"

definition child_mask_of ::
  "mask_constants \<Rightarrow> error + Depthmap \<Rightarrow> real \<Rightarrow> (error + int list list) option" where
  "child_mask_of K dm floor_arg =
     (case dm of
        Inl e \<Rightarrow> Some (Inl e)
      | Inr d \<Rightarrow> map_option (map_sum id rows) (segment_child K d floor_arg))"

section \<open>Properties\<close>

subsection \<open>Arrays, iteration and the flood fill\<close>

lemma bindE_Inr_iff: "bindE m f = Inr b \<longleftrightarrow> (\<exists>a. m = Inr a \<and> f a = Inr b)"
  by (cases m) (auto simp: bindE_def)

lemma bindE_Inr [simp]: "bindE (Inr a) f = f a" by (simp add: bindE_def)

lemma bindE_Inl [simp]: "bindE (Inl e) f = Inl e" by (simp add: bindE_def)

lemma dims_tabulate [simp]: "dim0 (tabulate w h f) = w" "dim1 (tabulate w h f) = h"
  by (simp_all add: tabulate_def)

lemma cells_tabulate: "x < w \<Longrightarrow> y < h \<Longrightarrow> cells (tabulate w h f) (x, y) = f (x, y)"
  by (simp add: tabulate_def cells_def)

lemma cells_tabulate_in_grid: "fst p < w \<Longrightarrow> snd p < h \<Longrightarrow> cells (tabulate w h f) p = f p"
  using cells_tabulate [of "fst p" w "snd p" h f] by simp

lemma dims_smoothen [simp]:
  "dim0 (smoothen_depthmap_array a) = dim0 a" "dim1 (smoothen_depthmap_array a) = dim1 a"
  by (simp_all add: smoothen_depthmap_array_def ndimage_convolve_def Let_def)

lemma normalize_l1:
  assumes "normalize v = (Some a, Some b, Some c)"
  shows "\<bar>a\<bar> + \<bar>b\<bar> + \<bar>c\<bar> = 1"
proof -
  obtain v0 v1 v2 where v: "v = (v0, v1, v2)" by (cases v) auto
  from assms v obtain r0 r1 r2 where r: "v0 = Some r0" "v1 = Some r1" "v2 = Some r2"
    by (auto simp: normalize_def nf_div_def nf_add_def nf_abs_def Let_def split: option.splits)
  let ?L = "\<bar>r0\<bar> + \<bar>r1\<bar> + \<bar>r2\<bar>"
  from assms v r have L: "?L \<noteq> 0" and abc: "a = r0 / ?L" "b = r1 / ?L" "c = r2 / ?L"
    by (auto simp: normalize_def nf_div_def nf_add_def nf_abs_def Let_def split: if_splits)
  have pos: "?L > 0" using L by linarith
  have absL: "\<bar>?L\<bar> = ?L" using pos by (rule abs_of_pos)
  have e: "\<bar>a\<bar> = \<bar>r0\<bar> / ?L" "\<bar>b\<bar> = \<bar>r1\<bar> / ?L" "\<bar>c\<bar> = \<bar>r2\<bar> / ?L"
    unfolding abc abs_divide absL by (rule refl)+
  have "\<bar>a\<bar> + \<bar>b\<bar> + \<bar>c\<bar> = ?L / ?L"
    unfolding e by (simp only: add_divide_distrib)
  also have "\<dots> = 1" using L by simp
  finally show ?thesis .
qed

lemma rectangular_tabulate [simp]: "rectangular (tabulate w h f)"
  by (auto simp: rectangular_def tabulate_def)

lemma norm_index_in_range: "0 \<le> i \<Longrightarrow> i < int n \<Longrightarrow> norm_index n i = Inr (nat i)"
  by (simp add: norm_index_def)

lemma norm_index_Inr: "norm_index n i = Inr k \<Longrightarrow> k < n"
  by (auto simp: norm_index_def split: if_splits)

lemma getitem_in_range:
  "0 \<le> i \<Longrightarrow> i < int (dim0 a) \<Longrightarrow> 0 \<le> j \<Longrightarrow> j < int (dim1 a)
     \<Longrightarrow> getitem a i j = Inr (cells a (nat i, nat j))"
  by (simp add: getitem_def norm_index_in_range)

lemma setitem_Inr:
  assumes "setitem a i j v = Inr a'"
  shows "\<exists>x y. norm_index (dim0 a) i = Inr x \<and> norm_index (dim1 a) j = Inr y
           \<and> a' = a\<lparr>rows := (rows a)[x := (rows a ! x)[y := v]]\<rparr>"
  using assms by (auto simp: setitem_def bindE_Inr_iff)

lemma update_cell:
  assumes "rectangular a" and "x < dim0 a" and "y < dim1 a"
  shows "rectangular (a\<lparr>rows := (rows a)[x := (rows a ! x)[y := v]]\<rparr>)"
    and "in_grid a p \<Longrightarrow> cells (a\<lparr>rows := (rows a)[x := (rows a ! x)[y := v]]\<rparr>) p
           = (if p = (x, y) then v else cells a p)"
proof -
  from assms have len: "length (rows a) = dim0 a" and row: "\<And>k. k < dim0 a \<Longrightarrow> length (rows a ! k) = dim1 a"
    by (auto simp: rectangular_def)
  show "rectangular (a\<lparr>rows := (rows a)[x := (rows a ! x)[y := v]]\<rparr>)"
    using assms len row by (auto simp: rectangular_def dest!: set_update_subset_insert [THEN subsetD])
  assume "in_grid a p"
  then have p: "fst p < dim0 a" "snd p < dim1 a" by (auto simp: in_grid_def)
  show "cells (a\<lparr>rows := (rows a)[x := (rows a ! x)[y := v]]\<rparr>) p = (if p = (x, y) then v else cells a p)"
    using p assms len row [of x] by (cases p) (auto simp: cells_def nth_list_update)
qed

lemma fill_row:
  assumes "rectangular out" and "0 \<le> x" and "x < int (dim0 out)"
    and "\<forall>y \<in> set ys. 0 \<le> y \<and> y < int (dim1 out) \<and> g y = Inr (f y)"
  shows "\<exists>out'. for_each ys (\<lambda>y acc. bindE (g y) (\<lambda>v. setitem acc x y v)) out = Inr out'
           \<and> rectangular out' \<and> dim0 out' = dim0 out \<and> dim1 out' = dim1 out
           \<and> (\<forall>p. in_grid out p \<longrightarrow> cells out' p =
                 (if fst p = nat x \<and> int (snd p) \<in> set ys then f (int (snd p)) else cells out p))"
  using assms
proof (induction ys arbitrary: out)
  case Nil
  then show ?case by simp
next
  case (Cons y ys)
  let ?o1 = "out\<lparr>rows := (rows out)[nat x := (rows out ! nat x)[nat y := f y]]\<rparr>"
  from Cons.prems have y: "0 \<le> y" "y < int (dim1 out)" "g y = Inr (f y)" by auto
  have step: "bindE (g y) (\<lambda>v. setitem out x y v) = Inr ?o1"
    using y Cons.prems(2,3) by (simp add: setitem_def norm_index_in_range)
  have xy: "nat x < dim0 out" "nat y < dim1 out" using y Cons.prems(2,3) by auto
  have r1: "rectangular ?o1" by (rule update_cell(1) [OF Cons.prems(1) xy])
  have d1: "dim0 ?o1 = dim0 out" "dim1 ?o1 = dim1 out" by simp_all
  have c1: "\<And>p. in_grid out p \<Longrightarrow> cells ?o1 p = (if p = (nat x, nat y) then f y else cells out p)"
    by (rule update_cell(2) [OF Cons.prems(1) xy])
  from Cons.IH [of ?o1] r1 d1 Cons.prems
  obtain out' where res: "for_each ys (\<lambda>y acc. bindE (g y) (\<lambda>v. setitem acc x y v)) ?o1 = Inr out'"
    "rectangular out'" "dim0 out' = dim0 out" "dim1 out' = dim1 out"
    "\<forall>p. in_grid ?o1 p \<longrightarrow> cells out' p =
        (if fst p = nat x \<and> int (snd p) \<in> set ys then f (int (snd p)) else cells ?o1 p)"
    by auto
  have g: "\<And>p. in_grid ?o1 p = in_grid out p" by (simp add: in_grid_def)
  have "\<forall>p. in_grid out p \<longrightarrow> cells out' p =
          (if fst p = nat x \<and> int (snd p) \<in> set (y # ys) then f (int (snd p)) else cells out p)"
  proof (intro allI impI)
    fix p assume p: "in_grid out p"
    show "cells out' p = (if fst p = nat x \<and> int (snd p) \<in> set (y # ys) then f (int (snd p)) else cells out p)"
      using res(5) p g c1 [OF p] y(1) by (cases p) auto
  qed
  with res step show ?case by auto
qed

lemma fill_rows:
  assumes "rectangular out" and "\<forall>x \<in> set xs. 0 \<le> x \<and> x < int (dim0 out)"
    and "\<forall>x \<in> set xs. \<forall>y \<in> set ys. 0 \<le> y \<and> y < int (dim1 out) \<and> g x y = Inr (f x y)"
  shows "\<exists>out'. for_each xs (\<lambda>x acc. for_each ys (\<lambda>y acc. bindE (g x y) (\<lambda>v. setitem acc x y v)) acc) out = Inr out'
           \<and> rectangular out' \<and> dim0 out' = dim0 out \<and> dim1 out' = dim1 out
           \<and> (\<forall>p. in_grid out p \<longrightarrow> cells out' p =
                 (if int (fst p) \<in> set xs \<and> int (snd p) \<in> set ys
                  then f (int (fst p)) (int (snd p)) else cells out p))"
  using assms
proof (induction xs arbitrary: out)
  case Nil
  then show ?case by simp
next
  case (Cons x xs)
  from Cons.prems have x: "0 \<le> x" "x < int (dim0 out)"
    and ys: "\<forall>y \<in> set ys. 0 \<le> y \<and> y < int (dim1 out) \<and> g x y = Inr (f x y)" by auto
  from fill_row [OF Cons.prems(1) x ys]
  obtain o1 where o1: "for_each ys (\<lambda>y acc. bindE (g x y) (\<lambda>v. setitem acc x y v)) out = Inr o1"
    "rectangular o1" "dim0 o1 = dim0 out" "dim1 o1 = dim1 out"
    "\<forall>p. in_grid out p \<longrightarrow> cells o1 p =
        (if fst p = nat x \<and> int (snd p) \<in> set ys then f x (int (snd p)) else cells out p)"
    by blast
  from Cons.IH [of o1] o1 Cons.prems
  obtain out' where res: "for_each xs (\<lambda>x acc. for_each ys (\<lambda>y acc. bindE (g x y) (\<lambda>v. setitem acc x y v)) acc) o1 = Inr out'"
    "rectangular out'" "dim0 out' = dim0 out" "dim1 out' = dim1 out"
    "\<forall>p. in_grid o1 p \<longrightarrow> cells out' p =
        (if int (fst p) \<in> set xs \<and> int (snd p) \<in> set ys
         then f (int (fst p)) (int (snd p)) else cells o1 p)"
    by auto
  have g: "\<And>p. in_grid o1 p = in_grid out p" by (simp add: in_grid_def o1)
  have "\<forall>p. in_grid out p \<longrightarrow> cells out' p =
          (if int (fst p) \<in> set (x # xs) \<and> int (snd p) \<in> set ys
           then f (int (fst p)) (int (snd p)) else cells out p)"
  proof (intro allI impI)
    fix p assume p: "in_grid out p"
    have e: "int (fst p) = x \<longleftrightarrow> fst p = nat x" using x(1) by auto
    show "cells out' p = (if int (fst p) \<in> set (x # xs) \<and> int (snd p) \<in> set ys
           then f (int (fst p)) (int (snd p)) else cells out p)"
      using res(5) o1(5) p g e by (cases p) auto
  qed
  with res o1(1) show ?case by auto
qed

lemma set_py_range: "set (py_range n) = {i. 0 \<le> i \<and> i < n}"
proof (intro set_eqI iffI)
  fix i assume "i \<in> set (py_range n)"
  then show "i \<in> {i. 0 \<le> i \<and> i < n}" by (auto simp: py_range_def)
next
  fix i assume "i \<in> {i. 0 \<le> i \<and> i < n}"
  then have "nat i \<in> {0..<nat n}" and "int (nat i) = i" by auto
  then have "i \<in> int ` {0..<nat n}" by (metis imageI)
  then show "i \<in> set (py_range n)" by (simp add: py_range_def)
qed

lemma shift_add_eq_or:
  fixes b0 :: int and w :: "8 word"
  shows "push_bit 8 b0 + uint w = push_bit 8 b0 OR uint w"
proof (rule disjunctive_add)
  fix n
  show "\<not> bit (push_bit 8 b0) n \<or> \<not> bit (uint w) n"
    by (auto simp: bit_push_bit_iff bit_uint_iff dest: bit_imp_le_length)
qed

lemma pixel_offset_bound:
  fixes x y w h :: int
  assumes "0 \<le> x" "x < w" "0 \<le> y" "y < h"
  shows "0 \<le> (y * w + x) * 3" and "(y * w + x) * 3 + 1 < w * h * 3"
proof -
  show "0 \<le> (y * w + x) * 3" using assms by simp
  have "y * w \<le> (h - 1) * w" using assms by (intro mult_right_mono) auto
  then have "y * w + x < h * w" using assms by (simp add: algebra_simps)
  then show "(y * w + x) * 3 + 1 < w * h * 3" by (simp add: algebra_simps)
qed

lemma fold_select:
  assumes "fold (select_step d) segs (c, f) = (c', f')"
  shows "(\<forall>s \<in> set segs. c' \<le> distance d s)
       \<and> ((c' = c \<and> f' = f \<and> (\<forall>s \<in> set segs. c \<le> distance d s))
          \<or> (\<exists>i < length segs. distance d (segs ! i) = c' \<and> c' < c
                \<and> segment_id (segs ! i) = f' \<and> (\<forall>j < i. c' < distance d (segs ! j))))"
  using assms
proof (induction segs arbitrary: c f)
  case Nil
  then show ?case by simp
next
  case (Cons s segs)
  show ?case
  proof (cases "c > distance d s")
    case True
    then have "select_step d s (c, f) = (distance d s, segment_id s)"
      by (simp add: select_step_def)
    with Cons.prems have "fold (select_step d) segs (distance d s, segment_id s) = (c', f')"
      by simp
    from Cons.IH [OF this]
    have lo: "\<forall>t \<in> set segs. c' \<le> distance d t"
      and alt: "(c' = distance d s \<and> f' = segment_id s \<and> (\<forall>t \<in> set segs. distance d s \<le> distance d t))
          \<or> (\<exists>i < length segs. distance d (segs ! i) = c' \<and> c' < distance d s
                \<and> segment_id (segs ! i) = f' \<and> (\<forall>j < i. c' < distance d (segs ! j)))"
      by auto
    from alt show ?thesis
    proof
      assume h: "c' = distance d s \<and> f' = segment_id s \<and> (\<forall>t \<in> set segs. distance d s \<le> distance d t)"
      then have "\<exists>i < length (s # segs). distance d ((s # segs) ! i) = c' \<and> c' < c
                \<and> segment_id ((s # segs) ! i) = f' \<and> (\<forall>j < i. c' < distance d ((s # segs) ! j))"
        using True by (intro exI [of _ 0]) simp
      with h lo show ?thesis by auto
    next
      assume "\<exists>i < length segs. distance d (segs ! i) = c' \<and> c' < distance d s
                \<and> segment_id (segs ! i) = f' \<and> (\<forall>j < i. c' < distance d (segs ! j))"
      then obtain i where i: "i < length segs" "distance d (segs ! i) = c'" "c' < distance d s"
        "segment_id (segs ! i) = f'" "\<forall>j < i. c' < distance d (segs ! j)" by blast
      have "\<forall>j < Suc i. c' < distance d ((s # segs) ! j)"
        using i(3,5) by (auto simp: nth_Cons split: nat.splits)
      with i True have "\<exists>i < length (s # segs). distance d ((s # segs) ! i) = c' \<and> c' < c
                \<and> segment_id ((s # segs) ! i) = f' \<and> (\<forall>j < i. c' < distance d ((s # segs) ! j))"
        by (intro exI [of _ "Suc i"]) simp
      moreover have "\<forall>t \<in> set (s # segs). c' \<le> distance d t" using lo i(3) by auto
      ultimately show ?thesis by blast
    qed
  next
    case False
    then have "select_step d s (c, f) = (c, f)"
      by (simp add: select_step_def)
    with Cons.prems have "fold (select_step d) segs (c, f) = (c', f')"
      by simp
    from Cons.IH [OF this]
    have lo: "\<forall>t \<in> set segs. c' \<le> distance d t"
      and alt: "(c' = c \<and> f' = f \<and> (\<forall>t \<in> set segs. c \<le> distance d t))
          \<or> (\<exists>i < length segs. distance d (segs ! i) = c' \<and> c' < c
                \<and> segment_id (segs ! i) = f' \<and> (\<forall>j < i. c' < distance d (segs ! j)))"
      by auto
    from alt show ?thesis
    proof
      assume "c' = c \<and> f' = f \<and> (\<forall>t \<in> set segs. c \<le> distance d t)"
      with False lo show ?thesis by auto
    next
      assume "\<exists>i < length segs. distance d (segs ! i) = c' \<and> c' < c
                \<and> segment_id (segs ! i) = f' \<and> (\<forall>j < i. c' < distance d (segs ! j))"
      then obtain i where i: "i < length segs" "distance d (segs ! i) = c'" "c' < c"
        "segment_id (segs ! i) = f'" "\<forall>j < i. c' < distance d (segs ! j)" by blast
      have "\<forall>j < Suc i. c' < distance d ((s # segs) ! j)"
        using i(3,5) False by (auto simp: nth_Cons split: nat.splits)
      with i have "\<exists>i < length (s # segs). distance d ((s # segs) ! i) = c' \<and> c' < c
                \<and> segment_id ((s # segs) ! i) = f' \<and> (\<forall>j < i. c' < distance d ((s # segs) ! j))"
        by (intro exI [of _ "Suc i"]) simp
      moreover have "\<forall>t \<in> set (s # segs). c' \<le> distance d t" using lo i(3) False by auto
      ultimately show ?thesis by blast
    qed
  qed
qed

lemma init_both:
  "isl (Depthmap_init intr w h (Some bs) (Some arr) scale conf pose)"
  by (auto simp: Depthmap_init_def bindE_def split: sum.splits)

lemma init_neither:
  "isl (Depthmap_init intr w h None None scale conf pose)"
  by (auto simp: Depthmap_init_def bindE_def truthy_def split: sum.splits)

lemma labels_kept_refl: "rectangular m \<Longrightarrow> labels_kept cid m m"
  by (simp add: labels_kept_def)

lemma labels_keptD:
  "labels_kept cid m m' \<Longrightarrow> in_grid m q \<Longrightarrow> cells m' q = cells m q \<or> cells m' q = cid"
  unfolding labels_kept_def by blast

lemma labels_kept_dims:
  "labels_kept cid m m' \<Longrightarrow> rectangular m' \<and> dim0 m' = dim0 m \<and> dim1 m' = dim1 m"
  unfolding labels_kept_def by blast

lemma labels_kept_grid: "labels_kept cid m m' \<Longrightarrow> in_grid m' q = in_grid m q"
  unfolding labels_kept_def in_grid_def by simp

lemma labels_kept_trans:
  assumes "labels_kept cid m m'" and "labels_kept cid m' m''"
  shows "labels_kept cid m m''"
proof -
  have "cells m'' q = cells m q \<or> cells m'' q = cid" if "in_grid m q" for q
  proof -
    from that have "in_grid m' q" using labels_kept_grid [OF assms(1)] by simp
    from labels_keptD [OF assms(1) that] labels_keptD [OF assms(2) this]
    show ?thesis by auto
  qed
  with labels_kept_dims [OF assms(1)] labels_kept_dims [OF assms(2)]
  show ?thesis unfolding labels_kept_def by simp
qed

lemma fill_step_mask:
  assumes "rectangular (fs_mask st)" and "fill_step depth cid pixel st = Inr st'"
  shows "labels_kept cid (fs_mask st) (fs_mask st')"
    and "\<exists>x y. norm_index (dim0 (fs_mask st)) (fst pixel) = Inr x
           \<and> norm_index (dim1 (fs_mask st)) (snd pixel) = Inr y
           \<and> cells (fs_mask st') (x, y) = cid"
proof -
  obtain a0 a1 a2 a3 where bb: "fs_aabb st = (a0, a1, a2, a3)"
    by (cases "fs_aabb st") auto
  from assms(2) obtain mask' where s: "setitem (fs_mask st) (fst pixel) (snd pixel) cid = Inr mask'"
    and m: "fs_mask st' = mask'"
    by (auto simp: fill_step_def bindE_Inr_iff bb)
  from setitem_Inr [OF s] obtain x y where
    xy: "norm_index (dim0 (fs_mask st)) (fst pixel) = Inr x"
        "norm_index (dim1 (fs_mask st)) (snd pixel) = Inr y"
    and m': "mask' = (fs_mask st)\<lparr>rows := (rows (fs_mask st))[x := (rows (fs_mask st) ! x)[y := cid]]\<rparr>"
    by blast
  have r: "x < dim0 (fs_mask st)" "y < dim1 (fs_mask st)"
    using xy by (auto dest: norm_index_Inr)
  note u = update_cell [OF assms(1) r, where v = cid]
  show "labels_kept cid (fs_mask st) (fs_mask st')"
    unfolding labels_kept_def m m' using u by auto
  have "in_grid (fs_mask st) (x, y)" using r by (simp add: in_grid_def)
  from u(2) [OF this] have "cells (fs_mask st') (x, y) = cid" by (simp add: m m')
  with xy show "\<exists>x y. norm_index (dim0 (fs_mask st)) (fst pixel) = Inr x
           \<and> norm_index (dim1 (fs_mask st)) (snd pixel) = Inr y
           \<and> cells (fs_mask st') (x, y) = cid" by blast
qed

lemma flood_fill_mask:
  assumes "flood_fill depth cid st = Some r"
  shows "\<forall>st'. r = Inr st' \<longrightarrow> rectangular (fs_mask st) \<longrightarrow> labels_kept cid (fs_mask st) (fs_mask st')"
proof (rule flood_fill.raw_induct
    [where P = "\<lambda>depth cid st r. \<forall>st'. r = Inr st' \<longrightarrow> rectangular (fs_mask st)
                   \<longrightarrow> labels_kept cid (fs_mask st) (fs_mask st')", OF _ assms])
  fix ff :: "real ndarray \<Rightarrow> int \<Rightarrow> fill_state \<Rightarrow> (error + fill_state) option"
  fix depth cid st r
  assume IH: "\<And>depth cid st r. ff depth cid st = Some r \<Longrightarrow>
      \<forall>st'. r = Inr st' \<longrightarrow> rectangular (fs_mask st) \<longrightarrow> labels_kept cid (fs_mask st) (fs_mask st')"
  assume body: "(case fs_stack st of [] \<Rightarrow> Some (Inr st)
      | pixel # rest \<Rightarrow>
          (case fill_step depth cid pixel (st\<lparr>fs_stack := rest\<rparr>) of
             Inl e \<Rightarrow> Some (Inl e) | Inr st' \<Rightarrow> ff depth cid st')) = Some r"
  show "\<forall>st'. r = Inr st' \<longrightarrow> rectangular (fs_mask st) \<longrightarrow> labels_kept cid (fs_mask st) (fs_mask st')"
  proof (cases "fs_stack st")
    case Nil
    with body show ?thesis by (auto intro: labels_kept_refl)
  next
    case (Cons pixel rest)
    show ?thesis
    proof (cases "fill_step depth cid pixel (st\<lparr>fs_stack := rest\<rparr>)")
      case (Inl e)
      with Cons body show ?thesis by auto
    next
      case (Inr st1)
      with Cons body have run: "ff depth cid st1 = Some r" by simp
      show ?thesis
      proof (intro allI impI)
        fix st' assume r: "r = Inr st'" and rect: "rectangular (fs_mask st)"
        from fill_step_mask(1) [OF _ Inr] rect
        have k1: "labels_kept cid (fs_mask st) (fs_mask st1)" by simp
        then have "rectangular (fs_mask st1)" by (simp add: labels_kept_def)
        with IH [OF run] r have "labels_kept cid (fs_mask st1) (fs_mask st')" by blast
        with k1 show "labels_kept cid (fs_mask st) (fs_mask st')" by (rule labels_kept_trans)
      qed
    qed
  qed
qed

lemma flood_fill_seed:
  assumes run: "flood_fill depth cid \<lparr>fs_mask = m, fs_aabb = bb, fs_stack = [(x, y)]\<rparr> = Some (Inr st')"
    and rect: "rectangular m" and x: "0 \<le> x" "x < int (dim0 m)" and y: "0 \<le> y" "y < int (dim1 m)"
  shows "labels_kept cid m (fs_mask st')" and "cells (fs_mask st') (nat x, nat y) = cid"
proof -
  let ?st = "\<lparr>fs_mask = m, fs_aabb = bb, fs_stack = [(x, y)]\<rparr>"
  from flood_fill_mask [OF run] rect show k: "labels_kept cid m (fs_mask st')" by simp
  from run obtain st1 where s1: "fill_step depth cid (x, y) (?st\<lparr>fs_stack := []\<rparr>) = Inr st1"
    and r1: "flood_fill depth cid st1 = Some (Inr st')"
    by (subst (asm) flood_fill.simps) (auto split: sum.splits)
  from fill_step_mask [OF _ s1] rect x y
  have k1: "labels_kept cid m (fs_mask st1)" and c1: "cells (fs_mask st1) (nat x, nat y) = cid"
    by (auto simp: norm_index_in_range)
  from flood_fill_mask [OF r1] k1
  have k2: "labels_kept cid (fs_mask st1) (fs_mask st')" by (simp add: labels_kept_def)
  have "in_grid (fs_mask st1) (nat x, nat y)"
    using k1 x y by (auto simp: in_grid_def labels_kept_def)
  with k2 c1 show "cells (fs_mask st') (nat x, nat y) = cid"
    by (auto simp: labels_kept_def)
qed

lemma for_each_opt_inv:
  assumes "for_each_opt xs body s = Some (Inr s')" and "I s"
    and "\<And>i s s'. i \<in> set xs \<Longrightarrow> I s \<Longrightarrow> body i s = Some (Inr s') \<Longrightarrow> I s'"
  shows "I s'"
  using assms
proof (induction xs arbitrary: s)
  case Nil
  then show ?case by simp
next
  case (Cons i xs)
  from Cons.prems(1) obtain s1 where b: "body i s = Some (Inr s1)"
    and r: "for_each_opt xs body s1 = Some (Inr s')"
    by (auto split: option.splits sum.splits)
  have s1: "I s1" using Cons.prems(3) [of i s s1] Cons.prems(2) b by simp
  have step: "I t'" if "k \<in> set xs" "I t" "body k t = Some (Inr t')" for k t t'
    using Cons.prems(3) [of k t t'] that by simp
  show ?case by (rule Cons.IH [OF r s1 step])
qed

lemma for_each_opt_post:
  assumes "for_each_opt xs body s = Some (Inr s')" and "I s"
    and "\<And>i s s'. i \<in> set xs \<Longrightarrow> I s \<Longrightarrow> body i s = Some (Inr s') \<Longrightarrow> I s' \<and> Q i s'"
    and "\<And>i j s s'. i \<in> set xs \<Longrightarrow> I s \<Longrightarrow> body i s = Some (Inr s') \<Longrightarrow> Q j s \<Longrightarrow> Q j s'"
  shows "\<forall>i \<in> set xs. Q i s'"
  using assms
proof (induction xs arbitrary: s)
  case Nil
  then show ?case by simp
next
  case (Cons i xs)
  from Cons.prems(1) obtain s1 where b: "body i s = Some (Inr s1)"
    and r: "for_each_opt xs body s1 = Some (Inr s')"
    by (auto split: option.splits sum.splits)
  have s1: "I s1" "Q i s1" using Cons.prems(3) [of i s s1] Cons.prems(2) b by simp_all
  have step: "I t' \<and> Q k t'" if "k \<in> set xs" "I t" "body k t = Some (Inr t')" for k t t'
    using Cons.prems(3) [of k t t'] that by simp
  have keep: "Q j t'" if "k \<in> set xs" "I t" "body k t = Some (Inr t')" "Q j t" for k j t t'
    using Cons.prems(4) [of k t t' j] that by simp
  have rest: "\<forall>j \<in> set xs. Q j s'"
    by (rule Cons.IH [OF r s1(1) step keep])
  have "I s' \<and> Q i s'"
  proof (rule for_each_opt_inv [where I = "\<lambda>t. I t \<and> Q i t", OF r])
    show "I s1 \<and> Q i s1" using s1 by simp
  next
    fix k t t' assume "k \<in> set xs" "I t \<and> Q i t" "body k t = Some (Inr t')"
    with step [of k t t'] keep [of k t t' i]
    show "I t' \<and> Q i t'" by simp
  qed
  with rest show ?case by simp
qed

lemma scan_pixel_inv:
  assumes inv: "scan_inv fm s"
    and x: "0 \<le> x" "x < int (dim0 fm)" and y: "0 \<le> y" "y < int (dim1 fm)"
    and run: "scan_pixel d x y s = Some (Inr s')"
  shows "scan_inv fm s'"
    and "cells (mask s') (nat x, nat y) \<noteq> 0"
    and "in_grid fm q \<Longrightarrow> cells (mask s) q \<noteq> 0 \<Longrightarrow> cells (mask s') q \<noteq> 0"
proof -
  from inv have rect: "rectangular (mask s)" and dims: "dim0 (mask s) = dim0 fm" "dim1 (mask s) = dim1 fm"
    and neg: "current_id s < 0"
    and lab: "\<And>q. in_grid fm q \<Longrightarrow> cells (mask s) q = cells fm q \<or> cells (mask s) q < 0"
    unfolding scan_inv_def by blast+
  have g: "getitem (mask s) x y = Inr (cells (mask s) (nat x, nat y))"
    using x y dims by (intro getitem_in_range) simp_all
  have "scan_inv fm s' \<and> cells (mask s') (nat x, nat y) \<noteq> 0
      \<and> (in_grid fm q \<longrightarrow> cells (mask s) q \<noteq> 0 \<longrightarrow> cells (mask s') q \<noteq> 0)"
  proof (cases "cells (mask s) (nat x, nat y) = 0")
    case False
    with run g have "s' = s" by (simp add: scan_pixel_def)
    with False inv show ?thesis by simp
  next
    case True
    let ?st = "\<lparr>fs_mask = mask s, fs_aabb = (x, y, x, y), fs_stack = [(x, y)]\<rparr>"
    from run g True obtain st where ff: "flood_fill (depthmap_arr d) (current_id s) ?st = Some (Inr st)"
      and m': "mask s' = fs_mask st" and c': "current_id s' = current_id s - 1"
      by (auto simp: scan_pixel_def Let_def split: option.splits sum.splits prod.splits)
    from flood_fill_seed [OF ff rect] x y dims
    have k: "labels_kept (current_id s) (mask s) (mask s')"
      and seed: "cells (mask s') (nat x, nat y) = current_id s"
      by (simp_all add: m')
    have gr: "\<And>q. in_grid (mask s) q = in_grid fm q" by (simp add: in_grid_def dims)
    have "cells (mask s') q = cells fm q \<or> cells (mask s') q < 0" if "in_grid fm q" for q
      using labels_keptD [OF k, of q] lab [OF that] that gr neg by auto
    then have "scan_inv fm s'"
      unfolding scan_inv_def using labels_kept_dims [OF k] dims neg c' by simp
    moreover have "cells (mask s') q \<noteq> 0" if "in_grid fm q" "cells (mask s) q \<noteq> 0"
      using labels_keptD [OF k, of q] that gr neg by auto
    ultimately show ?thesis using seed neg by simp
  qed
  then show "scan_inv fm s'" and "cells (mask s') (nat x, nat y) \<noteq> 0"
    and "in_grid fm q \<Longrightarrow> cells (mask s) q \<noteq> 0 \<Longrightarrow> cells (mask s') q \<noteq> 0" by simp_all
qed

lemma scan_row:
  assumes inv: "scan_inv fm s" and x: "0 \<le> x" "x < int (dim0 fm)" and h: "h \<le> int (dim1 fm)"
    and run: "for_each_opt (py_range h) (scan_pixel d x) s = Some (Inr s')"
  shows "scan_inv fm s'"
    and "\<forall>y \<in> set (py_range h). cells (mask s') (nat x, nat y) \<noteq> 0"
    and "in_grid fm q \<Longrightarrow> cells (mask s) q \<noteq> 0 \<Longrightarrow> cells (mask s') q \<noteq> 0"
proof -
  have yr: "0 \<le> y \<and> y < int (dim1 fm)" if "y \<in> set (py_range h)" for y
    using h that by (auto simp: set_py_range)
  have step: "scan_inv fm t'" if "i \<in> set (py_range h)" "scan_inv fm t"
      "scan_pixel d x i t = Some (Inr t')" for i t t'
    using scan_pixel_inv(1) [OF that(2) x _ _ that(3)] yr [OF that(1)] by simp
  have keep: "cells (mask t') q \<noteq> 0" if "i \<in> set (py_range h)" "scan_inv fm t"
      "scan_pixel d x i t = Some (Inr t')" "in_grid fm q" "cells (mask t) q \<noteq> 0" for i t t' q
    using scan_pixel_inv(3) [OF that(2) x _ _ that(3,4,5)] yr [OF that(1)] by simp
  show "scan_inv fm s'"
    by (rule for_each_opt_inv [where I = "scan_inv fm", OF run inv step])
  have "\<forall>y \<in> set (py_range h). in_grid fm (nat x, nat y) \<longrightarrow> cells (mask s') (nat x, nat y) \<noteq> 0"
  proof (rule for_each_opt_post [where I = "scan_inv fm"
        and Q = "\<lambda>y t. in_grid fm (nat x, nat y) \<longrightarrow> cells (mask t) (nat x, nat y) \<noteq> 0", OF run inv])
    fix i t t' assume a: "i \<in> set (py_range h)" "scan_inv fm t" "scan_pixel d x i t = Some (Inr t')"
    from yr [OF a(1)] scan_pixel_inv(2) [OF a(2) x _ _ a(3)] step [OF a]
    show "scan_inv fm t' \<and> (in_grid fm (nat x, nat i) \<longrightarrow> cells (mask t') (nat x, nat i) \<noteq> 0)" by simp
  next
    fix i j t t'
    assume a: "i \<in> set (py_range h)" "scan_inv fm t" "scan_pixel d x i t = Some (Inr t')"
      "in_grid fm (nat x, nat j) \<longrightarrow> cells (mask t) (nat x, nat j) \<noteq> 0"
    show "in_grid fm (nat x, nat j) \<longrightarrow> cells (mask t') (nat x, nat j) \<noteq> 0"
      using keep [OF a(1,2,3)] a(4) by blast
  qed
  moreover have "in_grid fm (nat x, nat y)" if "y \<in> set (py_range h)" for y
    using yr [OF that] x by (auto simp: in_grid_def)
  ultimately show "\<forall>y \<in> set (py_range h). cells (mask s') (nat x, nat y) \<noteq> 0" by blast
  show "cells (mask s') q \<noteq> 0" if "in_grid fm q" "cells (mask s) q \<noteq> 0"
  proof -
    have "scan_inv fm s' \<and> cells (mask s') q \<noteq> 0"
    proof (rule for_each_opt_inv [where I = "\<lambda>t. scan_inv fm t \<and> cells (mask t) q \<noteq> 0", OF run])
      show "scan_inv fm s \<and> cells (mask s) q \<noteq> 0" using inv that by simp
    next
      fix i t t' assume a: "i \<in> set (py_range h)" "scan_inv fm t \<and> cells (mask t) q \<noteq> 0"
        "scan_pixel d x i t = Some (Inr t')"
      from step [OF a(1) _ a(3)] keep [OF a(1) _ a(3) that(1)] a(2)
      show "scan_inv fm t' \<and> cells (mask t') q \<noteq> 0" by simp
    qed
    then show ?thesis by simp
  qed
qed

lemma scan_all:
  assumes inv: "scan_inv fm s" and w: "w \<le> int (dim0 fm)" and h: "h = int (dim1 fm)"
    and run: "for_each_opt (py_range w) (\<lambda>x. for_each_opt (py_range h) (scan_pixel d x)) s = Some (Inr s')"
  shows "scan_inv fm s'"
    and "\<forall>x \<in> set (py_range w). \<forall>y \<in> set (py_range h). cells (mask s') (nat x, nat y) \<noteq> 0"
proof -
  have h': "h \<le> int (dim1 fm)" using h by simp
  have xr: "0 \<le> x \<and> x < int (dim0 fm)" if "x \<in> set (py_range w)" for x
    using w that by (auto simp: set_py_range)
  have step: "scan_inv fm t'" if "x \<in> set (py_range w)" "scan_inv fm t"
      "for_each_opt (py_range h) (scan_pixel d x) t = Some (Inr t')" for x t t'
    using scan_row(1) [OF that(2) _ _ h' that(3)] xr [OF that(1)] by simp
  show "scan_inv fm s'"
    by (rule for_each_opt_inv [where I = "scan_inv fm", OF run inv step])
  have "\<forall>x \<in> set (py_range w). \<forall>y \<in> set (py_range h).
          in_grid fm (nat x, nat y) \<longrightarrow> cells (mask s') (nat x, nat y) \<noteq> 0"
  proof (rule for_each_opt_post [where I = "scan_inv fm"
        and Q = "\<lambda>x t. \<forall>y \<in> set (py_range h).
                   in_grid fm (nat x, nat y) \<longrightarrow> cells (mask t) (nat x, nat y) \<noteq> 0", OF run inv])
    fix x t t' assume a: "x \<in> set (py_range w)" "scan_inv fm t"
      "for_each_opt (py_range h) (scan_pixel d x) t = Some (Inr t')"
    from xr [OF a(1)] scan_row(2) [OF a(2) _ _ h' a(3)] step [OF a]
    show "scan_inv fm t' \<and> (\<forall>y \<in> set (py_range h).
            in_grid fm (nat x, nat y) \<longrightarrow> cells (mask t') (nat x, nat y) \<noteq> 0)" by simp
  next
    fix x j t t'
    assume a: "x \<in> set (py_range w)" "scan_inv fm t"
      "for_each_opt (py_range h) (scan_pixel d x) t = Some (Inr t')"
      "\<forall>y \<in> set (py_range h). in_grid fm (nat j, nat y) \<longrightarrow> cells (mask t) (nat j, nat y) \<noteq> 0"
    show "\<forall>y \<in> set (py_range h). in_grid fm (nat j, nat y) \<longrightarrow> cells (mask t') (nat j, nat y) \<noteq> 0"
    proof (intro ballI impI)
      fix y assume y: "y \<in> set (py_range h)" and g: "in_grid fm (nat j, nat y)"
      from xr [OF a(1)] scan_row(3) [OF a(2) _ _ h' a(3) g] a(4) y g
      show "cells (mask t') (nat j, nat y) \<noteq> 0" by simp
    qed
  qed
  moreover have "in_grid fm (nat x, nat y)"
    if "x \<in> set (py_range w)" "y \<in> set (py_range h)" for x y
    using xr [OF that(1)] that(2) h by (auto simp: in_grid_def set_py_range)
  ultimately show "\<forall>x \<in> set (py_range w). \<forall>y \<in> set (py_range h).
      cells (mask s') (nat x, nat y) \<noteq> 0" by blast
qed

lemma detect_floor_cells:
  assumes "detect_floor K d floor_arg = Inr fm"
  shows "rectangular fm" and "int (dim0 fm) = width d" and "int (dim1 fm) = height d"
    and "in_grid fm q \<Longrightarrow> cells fm q \<in> {0, MASK_FLOOR K, MASK_INVALID K}"
proof -
  from assms obtain points_3d_arr normal where
    w: "0 \<le> width d" "0 \<le> height d"
    and fm: "fm = tabulate (nat (width d)) (nat (height d))
        (\<lambda>p. if normal_cond normal p \<and> height_cond points_3d_arr floor_arg p then MASK_FLOOR K
             else cells (tabulate (nat (width d)) (nat (height d))
                      (\<lambda>p. if cells (depthmap_arr_smooth d) p = 0 then MASK_INVALID K
                           else cells (tabulate (nat (width d)) (nat (height d)) (\<lambda>_. 0)) p)) p)"
    by (auto simp: detect_floor_def np_zeros_def bindE_Inr_iff Let_def split: if_splits)
  show "rectangular fm" "int (dim0 fm) = width d" "int (dim1 fm) = height d"
    using w by (simp_all add: fm)
  assume "in_grid fm q"
  then have "fst q < nat (width d)" "snd q < nat (height d)" by (simp_all add: in_grid_def fm)
  then show "cells fm q \<in> {0, MASK_FLOOR K, MASK_INVALID K}"
    by (cases q) (simp add: fm cells_tabulate)
qed

lemma finite_grid: "finite {q. in_grid m q \<and> P q}"
proof (rule finite_subset)
  show "{q. in_grid m q \<and> P q} \<subseteq> {0..<dim0 m} \<times> {0..<dim1 m}"
    by (auto simp: in_grid_def)
qed simp

lemma zeros_update:
  assumes "rectangular m" and "x < dim0 m" and "y < dim1 m" and "cid \<noteq> 0"
  defines "m' \<equiv> m\<lparr>rows := (rows m)[x := (rows m ! x)[y := cid]]\<rparr>"
  shows "cells m (x, y) = 0 \<Longrightarrow> zeros m' < zeros m"
    and "cells m (x, y) \<noteq> 0 \<Longrightarrow> zeros m' = zeros m"
proof -
  have g: "\<And>q. in_grid m' q = in_grid m q" by (simp add: m'_def in_grid_def)
  have c: "\<And>q. in_grid m q \<Longrightarrow> cells m' q = (if q = (x, y) then cid else cells m q)"
    unfolding m'_def by (rule update_cell(2) [OF assms(1,2,3)])
  have xy: "in_grid m (x, y)" using assms(2,3) by (simp add: in_grid_def)
  {
    assume z: "cells m (x, y) = 0"
    have "{q. in_grid m' q \<and> cells m' q = 0} \<subset> {q. in_grid m q \<and> cells m q = 0}"
    proof
      show "{q. in_grid m' q \<and> cells m' q = 0} \<subseteq> {q. in_grid m q \<and> cells m q = 0}"
        using g c assms(4) by (auto split: if_splits)
      have "(x, y) \<in> {q. in_grid m q \<and> cells m q = 0}" using xy z by simp
      moreover have "(x, y) \<notin> {q. in_grid m' q \<and> cells m' q = 0}"
        using c [OF xy] assms(4) by simp
      ultimately show "{q. in_grid m' q \<and> cells m' q = 0} \<noteq> {q. in_grid m q \<and> cells m q = 0}"
        by blast
    qed
    then show "zeros m' < zeros m"
      unfolding zeros_def by (rule psubset_card_mono [OF finite_grid])
  }
  {
    assume nz: "cells m (x, y) \<noteq> 0"
    have "{q. in_grid m' q \<and> cells m' q = 0} = {q. in_grid m q \<and> cells m q = 0}"
      using g c assms(4) nz by (auto split: if_splits)
    then show "zeros m' = zeros m" by (simp add: zeros_def)
  }
qed

lemma push_length:
  assumes "for_each ds (push_neighbour depth pixel depth_center) stack = Inr stack'"
  shows "length stack' \<le> length stack + length ds"
  using assms
proof (induction ds arbitrary: stack)
  case Nil
  then show ?case by simp
next
  case (Cons a ds)
  from Cons.prems obtain s1 where s1: "push_neighbour depth pixel depth_center a stack = Inr s1"
    and r: "for_each ds (push_neighbour depth pixel depth_center) s1 = Inr stack'"
    by (auto simp: bindE_Inr_iff)
  from s1 have "length s1 \<le> length stack + 1"
    by (auto simp: push_neighbour_def bindE_Inr_iff Let_def split: if_splits)
  with Cons.IH [OF r] show ?case by simp
qed

lemma push_neighbours_length:
  "push_neighbours depth pixel depth_center stack = Inr stack' \<Longrightarrow> length stack' \<le> length stack + 4"
  unfolding push_neighbours_def using push_length [of dirs depth pixel depth_center stack stack']
  by (simp add: dirs_def)

lemma fill_step_measure:
  assumes rect: "rectangular (fs_mask st)" and cid: "cid \<noteq> 0"
    and step: "fill_step depth cid pixel st = Inr st'"
  shows "5 * zeros (fs_mask st') + length (fs_stack st') \<le> 5 * zeros (fs_mask st) + length (fs_stack st)"
proof -
  obtain a0 a1 a2 a3 where bb: "fs_aabb st = (a0, a1, a2, a3)"
    by (cases "fs_aabb st") auto
  from step obtain dc m stack mask' where
    gm: "getitem (fs_mask st) (fst pixel) (snd pixel) = Inr m"
    and ps: "(if m = 0 then push_neighbours depth pixel dc (fs_stack st)
              else Inr (fs_stack st)) = Inr stack"
    and s: "setitem (fs_mask st) (fst pixel) (snd pixel) cid = Inr mask'"
    and st': "fs_mask st' = mask'" "fs_stack st' = stack"
    by (auto simp: fill_step_def bindE_Inr_iff bb)
  from setitem_Inr [OF s] obtain x y where
    xy: "norm_index (dim0 (fs_mask st)) (fst pixel) = Inr x"
        "norm_index (dim1 (fs_mask st)) (snd pixel) = Inr y"
    and m': "mask' = (fs_mask st)\<lparr>rows := (rows (fs_mask st))[x := (rows (fs_mask st) ! x)[y := cid]]\<rparr>"
    by blast
  have r: "x < dim0 (fs_mask st)" "y < dim1 (fs_mask st)"
    using xy by (auto dest: norm_index_Inr)
  from gm xy have m: "m = cells (fs_mask st) (x, y)" by (simp add: getitem_def)
  show ?thesis
  proof (cases "m = 0")
    case True
    with ps have "length stack \<le> length (fs_stack st) + 4"
      by (auto dest: push_neighbours_length)
    moreover from zeros_update(1) [OF rect r cid] True m
    have "zeros mask' < zeros (fs_mask st)" by (simp add: m')
    ultimately show ?thesis by (simp add: st')
  next
    case False
    with ps have "stack = fs_stack st" by simp
    moreover from zeros_update(2) [OF rect r cid] False m
    have "zeros mask' = zeros (fs_mask st)" by (simp add: m')
    ultimately show ?thesis by (simp add: st')
  qed
qed

lemma flood_fill_terminates:
  assumes "cid \<noteq> 0" and "rectangular (fs_mask st)"
  shows "\<exists>r. flood_fill depth cid st = Some r"
  using assms(2)
proof (induction "5 * zeros (fs_mask st) + length (fs_stack st)" arbitrary: st rule: less_induct)
  case less
  show ?case
  proof (cases "fs_stack st")
    case Nil
    then show ?thesis by (subst flood_fill.simps) simp
  next
    case (Cons pixel rest)
    show ?thesis
    proof (cases "fill_step depth cid pixel (st\<lparr>fs_stack := rest\<rparr>)")
      case (Inl e)
      with Cons show ?thesis by (subst flood_fill.simps) simp
    next
      case (Inr st1)
      from fill_step_measure [OF _ assms(1) Inr] less.prems Cons
      have "5 * zeros (fs_mask st1) + length (fs_stack st1)
              < 5 * zeros (fs_mask st) + length (fs_stack st)" by simp
      moreover from fill_step_mask(1) [OF _ Inr] less.prems
      have "rectangular (fs_mask st1)" by (simp add: labels_kept_def)
      ultimately obtain r where "flood_fill depth cid st1 = Some r"
        using less.hyps by blast
      with Cons Inr show ?thesis by (subst flood_fill.simps) simp
    qed
  qed
qed

lemma scan_pixel_terminates:
  assumes "scan_inv fm s"
  shows "\<exists>r. scan_pixel d x y s = Some r"
proof -
  from assms have rect: "rectangular (mask s)" and neg: "current_id s \<noteq> 0"
    by (auto simp: scan_inv_def)
  let ?st = "\<lparr>fs_mask = mask s, fs_aabb = (x, y, x, y), fs_stack = [(x, y)]\<rparr>"
  from flood_fill_terminates [OF neg, of ?st "depthmap_arr d"] rect
  obtain r where "flood_fill (depthmap_arr d) (current_id s) ?st = Some r" by auto
  then show ?thesis
    by (auto simp: scan_pixel_def Let_def split: sum.splits prod.splits)
qed

lemma for_each_opt_terminates:
  assumes "I s"
    and "\<And>i s. i \<in> set xs \<Longrightarrow> I s \<Longrightarrow> \<exists>r. body i s = Some r"
    and "\<And>i s s'. i \<in> set xs \<Longrightarrow> I s \<Longrightarrow> body i s = Some (Inr s') \<Longrightarrow> I s'"
  shows "\<exists>r. for_each_opt xs body s = Some r"
  using assms
proof (induction xs arbitrary: s)
  case Nil
  then show ?case by simp
next
  case (Cons i xs)
  from Cons.prems(2) [of i s] Cons.prems(1) obtain r where r: "body i s = Some r" by auto
  show ?case
  proof (cases r)
    case (Inl e)
    with r show ?thesis by simp
  next
    case (Inr s1)
    with r Cons.prems(3) [of i s s1] Cons.prems(1) have s1: "I s1" by simp
    have t: "\<exists>r. body k t = Some r" if "k \<in> set xs" "I t" for k t
      using Cons.prems(2) [of k t] that by simp
    have p: "I t'" if "k \<in> set xs" "I t" "body k t = Some (Inr t')" for k t t'
      using Cons.prems(3) [of k t t'] that by simp
    from Cons.IH [OF s1 t p] r Inr show ?thesis by simp
  qed
qed

lemma detect_objects_terminates: "\<exists>r. detect_objects K d floor_arg = Some r"
proof (cases "detect_floor K d floor_arg")
  case (Inl e)
  then show ?thesis by (simp add: detect_objects_def)
next
  case (Inr fm)
  note f = detect_floor_cells [OF Inr]
  let ?s0 = "\<lparr>mask = fm, segments = [], current_id = -1\<rparr>"
  have inv0: "scan_inv fm ?s0" using f(1) by (simp add: scan_inv_def)
  have h: "height d \<le> int (dim1 fm)" using f(3) by simp
  have xr: "0 \<le> x \<and> x < int (dim0 fm)" if "x \<in> set (py_range (width d))" for x
    using f(2) that by (auto simp: set_py_range)
  have yr: "0 \<le> y \<and> y < int (dim1 fm)" if "y \<in> set (py_range (height d))" for y
    using f(3) that by (auto simp: set_py_range)
  have row_t: "\<exists>r. for_each_opt (py_range (height d)) (scan_pixel d x) t = Some r"
    if "x \<in> set (py_range (width d))" "scan_inv fm t" for x t
  proof (rule for_each_opt_terminates [where I = "scan_inv fm", OF that(2)])
    fix y u assume "scan_inv fm u"
    then show "\<exists>r. scan_pixel d x y u = Some r" by (rule scan_pixel_terminates)
  next
    fix y u u' assume a: "y \<in> set (py_range (height d))" "scan_inv fm u"
      "scan_pixel d x y u = Some (Inr u')"
    from scan_pixel_inv(1) [OF a(2) _ _ _ _ a(3)] xr [OF that(1)] yr [OF a(1)]
    show "scan_inv fm u'" by simp
  qed
  have row_p: "scan_inv fm t'"
    if "x \<in> set (py_range (width d))" "scan_inv fm t"
      "for_each_opt (py_range (height d)) (scan_pixel d x) t = Some (Inr t')" for x t t'
    using scan_row(1) [OF that(2) _ _ h that(3)] xr [OF that(1)] by simp
  have "\<exists>r. for_each_opt (py_range (width d))
      (\<lambda>x. for_each_opt (py_range (height d)) (scan_pixel d x)) ?s0 = Some r"
  proof (rule for_each_opt_terminates [where I = "scan_inv fm"
        and body = "\<lambda>x. for_each_opt (py_range (height d)) (scan_pixel d x)", OF inv0])
    fix x t assume "x \<in> set (py_range (width d))" "scan_inv fm t"
    then show "\<exists>r. for_each_opt (py_range (height d)) (scan_pixel d x) t = Some r"
      by (rule row_t)
  next
    fix x t t' assume "x \<in> set (py_range (width d))" "scan_inv fm t"
      "for_each_opt (py_range (height d)) (scan_pixel d x) t = Some (Inr t')"
    then show "scan_inv fm t'" by (rule row_p)
  qed
  with Inr show ?thesis by (auto simp: detect_objects_def)
qed

lemma norm_index_range: "norm_index n i = Inr k \<Longrightarrow> - int n \<le> i \<and> i < int n"
  by (auto simp: norm_index_def split: if_splits)

lemma fill_step_aabb:
  assumes "fill_step depth cid pixel st = Inr st'"
    and "box_in (dim0 (fs_mask st)) (dim1 (fs_mask st)) (fs_aabb st)"
  shows "box_in (dim0 (fs_mask st)) (dim1 (fs_mask st)) (fs_aabb st')"
proof -
  obtain a0 a1 a2 a3 where bb: "fs_aabb st = (a0, a1, a2, a3)"
    by (cases "fs_aabb st") auto
  from assms(1) obtain mask' where s: "setitem (fs_mask st) (fst pixel) (snd pixel) cid = Inr mask'"
    and a: "fs_aabb st' = (min (fst pixel) a0, min (snd pixel) a1, max (fst pixel) a2, max (snd pixel) a3)"
    by (auto simp: fill_step_def bindE_Inr_iff bb)
  from setitem_Inr [OF s] obtain x y where
    "norm_index (dim0 (fs_mask st)) (fst pixel) = Inr x"
    "norm_index (dim1 (fs_mask st)) (snd pixel) = Inr y" by blast
  then have "- int (dim0 (fs_mask st)) \<le> fst pixel \<and> fst pixel < int (dim0 (fs_mask st))"
    "- int (dim1 (fs_mask st)) \<le> snd pixel \<and> snd pixel < int (dim1 (fs_mask st))"
    by (auto dest: norm_index_range)
  with assms(2) show ?thesis by (auto simp: box_in_def bb a)
qed

lemma flood_fill_aabb:
  assumes "flood_fill depth cid st = Some r"
  shows "\<forall>st'. r = Inr st' \<longrightarrow> rectangular (fs_mask st)
           \<longrightarrow> box_in (dim0 (fs_mask st)) (dim1 (fs_mask st)) (fs_aabb st)
           \<longrightarrow> box_in (dim0 (fs_mask st)) (dim1 (fs_mask st)) (fs_aabb st')"
proof (rule flood_fill.raw_induct
    [where P = "\<lambda>depth cid st r. \<forall>st'. r = Inr st' \<longrightarrow> rectangular (fs_mask st)
           \<longrightarrow> box_in (dim0 (fs_mask st)) (dim1 (fs_mask st)) (fs_aabb st)
           \<longrightarrow> box_in (dim0 (fs_mask st)) (dim1 (fs_mask st)) (fs_aabb st')", OF _ assms])
  fix ff :: "real ndarray \<Rightarrow> int \<Rightarrow> fill_state \<Rightarrow> (error + fill_state) option"
  fix depth cid st r
  assume IH: "\<And>depth cid st r. ff depth cid st = Some r \<Longrightarrow>
      \<forall>st'. r = Inr st' \<longrightarrow> rectangular (fs_mask st)
           \<longrightarrow> box_in (dim0 (fs_mask st)) (dim1 (fs_mask st)) (fs_aabb st)
           \<longrightarrow> box_in (dim0 (fs_mask st)) (dim1 (fs_mask st)) (fs_aabb st')"
  assume body: "(case fs_stack st of [] \<Rightarrow> Some (Inr st)
      | pixel # rest \<Rightarrow>
          (case fill_step depth cid pixel (st\<lparr>fs_stack := rest\<rparr>) of
             Inl e \<Rightarrow> Some (Inl e) | Inr st' \<Rightarrow> ff depth cid st')) = Some r"
  show "\<forall>st'. r = Inr st' \<longrightarrow> rectangular (fs_mask st)
           \<longrightarrow> box_in (dim0 (fs_mask st)) (dim1 (fs_mask st)) (fs_aabb st)
           \<longrightarrow> box_in (dim0 (fs_mask st)) (dim1 (fs_mask st)) (fs_aabb st')"
  proof (cases "fs_stack st")
    case Nil
    with body show ?thesis by auto
  next
    case (Cons pixel rest)
    show ?thesis
    proof (cases "fill_step depth cid pixel (st\<lparr>fs_stack := rest\<rparr>)")
      case (Inl e)
      with Cons body show ?thesis by auto
    next
      case (Inr st1)
      with Cons body have run: "ff depth cid st1 = Some r" by simp
      show ?thesis
      proof (intro allI impI)
        fix st' assume r: "r = Inr st'" and rect: "rectangular (fs_mask st)"
          and box: "box_in (dim0 (fs_mask st)) (dim1 (fs_mask st)) (fs_aabb st)"
        from fill_step_mask(1) [OF _ Inr] rect
        have k: "labels_kept cid (fs_mask st) (fs_mask st1)" by simp
        note dm = labels_kept_dims [OF k]
        from fill_step_aabb [OF Inr] box
        have "box_in (dim0 (fs_mask st1)) (dim1 (fs_mask st1)) (fs_aabb st1)"
          by (simp add: dm)
        with IH [OF run] r dm
        show "box_in (dim0 (fs_mask st)) (dim1 (fs_mask st)) (fs_aabb st')" by simp
      qed
    qed
  qed
qed

lemma scan_pixel_boxes:
  assumes inv: "scan_inv fm s" and boxes: "boxes_in fm s"
    and x: "0 \<le> x" "x < int (dim0 fm)" and y: "0 \<le> y" "y < int (dim1 fm)"
    and run: "scan_pixel d x y s = Some (Inr s')"
  shows "boxes_in fm s'"
proof -
  from inv have rect: "rectangular (mask s)" and dims: "dim0 (mask s) = dim0 fm" "dim1 (mask s) = dim1 fm"
    unfolding scan_inv_def by blast+
  have g: "getitem (mask s) x y = Inr (cells (mask s) (nat x, nat y))"
    using x y dims by (intro getitem_in_range) simp_all
  show ?thesis
  proof (cases "cells (mask s) (nat x, nat y) = 0")
    case False
    with run g have "s' = s" by (simp add: scan_pixel_def)
    with boxes show ?thesis by simp
  next
    case True
    let ?st = "\<lparr>fs_mask = mask s, fs_aabb = (x, y, x, y), fs_stack = [(x, y)]\<rparr>"
    from run g True obtain st where ff: "flood_fill (depthmap_arr d) (current_id s) ?st = Some (Inr st)"
      and segs: "segments s' = segments s
           \<or> segments s' = segments s @ [\<lparr>segment_id = current_id s, aabb = fs_aabb st\<rparr>]"
      by (auto simp: scan_pixel_def Let_def split: option.splits sum.splits prod.splits if_splits)
    have "box_in (dim0 (fs_mask ?st)) (dim1 (fs_mask ?st)) (fs_aabb ?st)"
      using x y dims by (simp add: box_in_def)
    with flood_fill_aabb [OF ff] rect dims
    have "box_in (dim0 fm) (dim1 fm) (fs_aabb st)" by simp
    with segs boxes show ?thesis by (auto simp: boxes_in_def)
  qed
qed

lemma detect_objects_boxes:
  assumes floor: "detect_floor K d floor_arg = Inr fm"
    and run: "detect_objects K d floor_arg = Some (Inr (m, segs))"
  shows "list_all (\<lambda>g. box_in (dim0 fm) (dim1 fm) (aabb g)) segs"
proof -
  let ?s0 = "\<lparr>mask = fm, segments = [], current_id = -1\<rparr>"
  let ?loop = "for_each_opt (py_range (width d))
      (\<lambda>x. for_each_opt (py_range (height d)) (scan_pixel d x)) ?s0"
  from run floor
  have "map_option (map_sum id (\<lambda>s. (mask s, segments s))) ?loop = Some (Inr (m, segs))"
    by (simp add: detect_objects_def)
  then obtain r where r: "?loop = Some r" "map_sum id (\<lambda>s. (mask s, segments s)) r = Inr (m, segs)"
    by auto
  then obtain s' where loop: "?loop = Some (Inr s')" and sg: "segs = segments s'"
    by (cases r) auto
  note f = detect_floor_cells [OF floor]
  let ?I = "\<lambda>t. scan_inv fm t \<and> boxes_in fm t"
  have inv0: "?I ?s0" using f(1) by (simp add: scan_inv_def boxes_in_def)
  have xr: "0 \<le> x \<and> x < int (dim0 fm)" if "x \<in> set (py_range (width d))" for x
    using f(2) that by (auto simp: set_py_range)
  have yr: "0 \<le> y \<and> y < int (dim1 fm)" if "y \<in> set (py_range (height d))" for y
    using f(3) that by (auto simp: set_py_range)
  have row: "?I t'" if "x \<in> set (py_range (width d))" "?I t"
      "for_each_opt (py_range (height d)) (scan_pixel d x) t = Some (Inr t')" for x t t'
  proof (rule for_each_opt_inv [where I = ?I, OF that(3) that(2)])
    fix y u u' assume a: "y \<in> set (py_range (height d))" "?I u" "scan_pixel d x y u = Some (Inr u')"
    from a(2) have u: "scan_inv fm u" "boxes_in fm u" by simp_all
    from scan_pixel_inv(1) [OF u(1) _ _ _ _ a(3)] scan_pixel_boxes [OF u _ _ _ _ a(3)]
      xr [OF that(1)] yr [OF a(1)]
    show "?I u'" by simp
  qed
  have "?I s'"
    by (rule for_each_opt_inv [where I = ?I
          and body = "\<lambda>x. for_each_opt (py_range (height d)) (scan_pixel d x)", OF loop inv0 row])
  then show ?thesis by (simp add: boxes_in_def sg)
qed

lemma int_of_float_half: "0 \<le> w \<Longrightarrow> int_of_float (real_of_int w / 2) = w div 2"
proof -
  assume "0 \<le> w"
  have "\<lfloor>real_of_int w / real_of_int 2\<rfloor> = w div 2" by (rule floor_divide_of_int_eq)
  with \<open>0 \<le> w\<close> show ?thesis by (simp add: int_of_float_def)
qed

lemma offset_square:
  fixes a c w :: int
  assumes "- w \<le> a" "a < w" "c = w div 2" "0 \<le> w"
  shows "4 * ((a - c) * (a - c)) \<le> 9 * (w * w)"
proof -
  have "\<bar>2 * (a - c)\<bar> \<le> \<bar>3 * w\<bar>" using assms by auto
  then have "(2 * (a - c))\<^sup>2 \<le> (3 * w)\<^sup>2" by (simp only: abs_le_square_iff)
  then show ?thesis by (simp add: power2_eq_square algebra_simps)
qed

lemma distance_bound:
  assumes "box_in W H (aabb g)" and "int W = width d" and "int H = height d"
  shows "2 * distance d g \<le> 9 * (width d * width d + height d * height d)"
proof -
  obtain a0 a1 a2 a3 where bb: "aabb g = (a0, a1, a2, a3)" by (cases "aabb g") auto
  have w: "0 \<le> width d" "0 \<le> height d" using assms(2,3) by linarith+
  let ?cw = "width d div 2" and ?ch = "height d div 2"
  from assms bb have r: "- width d \<le> a0" "a0 < width d" "- height d \<le> a1" "a1 < height d"
      "- width d \<le> a2" "a2 < width d" "- height d \<le> a3" "a3 < height d"
    by (auto simp: box_in_def)
  have d: "distance d g = (a0 - ?cw) * (a0 - ?cw) + (a1 - ?ch) * (a1 - ?ch)
             + (a2 - ?cw) * (a2 - ?cw) + (a3 - ?ch) * (a3 - ?ch)"
    by (simp add: distance_def bb Let_def int_of_float_half w)
  define A where "A = (a0 - ?cw) * (a0 - ?cw)"
  define B where "B = (a1 - ?ch) * (a1 - ?ch)"
  define C where "C = (a2 - ?cw) * (a2 - ?cw)"
  define E where "E = (a3 - ?ch) * (a3 - ?ch)"
  define Wq where "Wq = width d * width d"
  define Hq where "Hq = height d * height d"
  have "4 * A \<le> 9 * Wq" "4 * B \<le> 9 * Hq" "4 * C \<le> 9 * Wq" "4 * E \<le> 9 * Hq"
    unfolding A_def B_def C_def E_def Wq_def Hq_def
    using offset_square [OF r(1,2) refl w(1)] offset_square [OF r(3,4) refl w(2)]
      offset_square [OF r(5,6) refl w(1)] offset_square [OF r(7,8) refl w(2)]
    by simp_all
  then have "2 * A + 2 * B + 2 * C + 2 * E \<le> 9 * Wq + 9 * Hq" by linarith
  then have "2 * (A + B + C + E) \<le> 9 * (Wq + Hq)" by (simp add: algebra_simps)
  then show ?thesis unfolding d A_def B_def C_def E_def Wq_def Hq_def .
qed

lemma corner_sum_distance:
  assumes "0 \<le> width d" "0 \<le> height d"
  shows "(case aabb s of (x0, y0, x1, y1) \<Rightarrow>
            (\<Sum>(px, py)\<leftarrow>[(x0, y0), (x0, y1), (x1, y0), (x1, y1)].
               (px - width d div 2)\<^sup>2 + (py - height d div 2)\<^sup>2))
         = 2 * distance d s"
  using assms
  by (cases "aabb s") (simp add: distance_def Let_def int_of_float_half power2_eq_square)

lemma detect_objects_labels:
  assumes floor: "detect_floor K d floor_arg = Inr fm"
    and run: "detect_objects K d floor_arg = Some (Inr (m, segs))"
    and p: "in_grid fm p"
  shows "in_grid m p
       \<and> (cells m p < 0
          \<or> (cells m p = cells fm p \<and> cells m p \<noteq> 0
              \<and> (cells m p = MASK_FLOOR K \<or> cells m p = MASK_INVALID K)))"
proof -
  let ?s0 = "\<lparr>mask = fm, segments = [], current_id = -1\<rparr>"
  let ?loop = "for_each_opt (py_range (width d))
      (\<lambda>x. for_each_opt (py_range (height d)) (scan_pixel d x)) ?s0"
  from run floor
  have "map_option (map_sum id (\<lambda>s. (mask s, segments s))) ?loop = Some (Inr (m, segs))"
    by (simp add: detect_objects_def)
  then obtain r where r: "?loop = Some r" "map_sum id (\<lambda>s. (mask s, segments s)) r = Inr (m, segs)"
    by auto
  then obtain s' where loop: "?loop = Some (Inr s')" and m: "m = mask s'"
    by (cases r) auto
  note f = detect_floor_cells [OF floor]
  have inv0: "scan_inv fm ?s0" using f(1) by (simp add: scan_inv_def)
  from scan_all [OF inv0 _ _ loop] f(2,3)
  have inv: "scan_inv fm s'"
    and all: "\<forall>x \<in> set (py_range (width d)). \<forall>y \<in> set (py_range (height d)).
                cells (mask s') (nat x, nat y) \<noteq> 0"
    by simp_all
  obtain x y where xy: "p = (x, y)" by (cases p) auto
  with p f(2,3) have "int x \<in> set (py_range (width d))" "int y \<in> set (py_range (height d))"
    by (auto simp: in_grid_def set_py_range)
  with all have nz: "cells m p \<noteq> 0" unfolding m xy by fastforce
  from inv have lab: "\<forall>q. in_grid fm q \<longrightarrow> cells (mask s') q = cells fm q \<or> cells (mask s') q < 0"
    and dims: "dim0 (mask s') = dim0 fm" "dim1 (mask s') = dim1 fm"
    unfolding scan_inv_def by blast+
  from lab p have "cells m p = cells fm p \<or> cells m p < 0" unfolding m by blast
  moreover from p dims have g: "in_grid m p" by (simp add: in_grid_def m)
  ultimately have "cells m p = cells fm p \<or> cells m p < 0" and g: "in_grid m p" by simp_all
  with nz f(4) [OF p] show ?thesis by auto
qed

lemma segment_child_selects:
  assumes run: "detect_objects K d floor_arg = Some (Inr (m, segs))"
    and some: "\<exists>s \<in> set segs. distance d s < sys_maxsize"
  shows "\<exists>i < length segs. \<exists>child.
           (\<forall>s \<in> set segs. distance d (segs ! i) \<le> distance d s)
         \<and> (\<forall>j < i. distance d (segs ! i) < distance d (segs ! j))
         \<and> segment_child K d floor_arg = Some (Inr child)
         \<and> dim0 child = dim0 m \<and> dim1 child = dim1 m
         \<and> (\<forall>p. in_grid m p \<longrightarrow> cells child p =
               (if cells m p = segment_id (segs ! i) then MASK_CHILD K else cells m p))"
proof -
  obtain c' f' where cf: "fold (select_step d) segs (sys_maxsize, -1) = (c', f')"
    by (cases "fold (select_step d) segs (sys_maxsize, -1)") auto
  from fold_select [OF cf] some
  obtain i where i: "i < length segs" "distance d (segs ! i) = c'" "segment_id (segs ! i) = f'"
      "\<forall>j < i. c' < distance d (segs ! j)" and lo: "\<forall>s \<in> set segs. c' \<le> distance d s"
    by (auto simp: not_le [symmetric])
  let ?child = "np_where_eq m f' (MASK_CHILD K)"
  have sc: "segment_child K d floor_arg = Some (Inr ?child)"
    by (simp add: segment_child_def run select_focus_def cf)
  have cells: "\<forall>p. in_grid m p \<longrightarrow> cells ?child p = (if cells m p = f' then MASK_CHILD K else cells m p)"
    by (auto simp: np_where_eq_def in_grid_def cells_tabulate)
  have dims: "dim0 ?child = dim0 m" "dim1 ?child = dim1 m" by (simp_all add: np_where_eq_def)
  from i lo sc cells dims show ?thesis by (intro exI [of _ i]) auto
qed

subsection \<open>Evaluation of the worked inputs\<close>

text \<open>
  The worked inputs are evaluated by rewriting with the definitions. The congruence rule
  keeps a continuation unevaluated until its argument is a value.
\<close>

lemma bindE_weak_cong: "m = m' \<Longrightarrow> bindE m f = bindE m' f" by simp

lemmas evals =
  bindE_def cells_def in_grid_def tabulate_def np_zeros_def norm_index_def getitem_def setitem_def
  py_range_def bytes_getitem_def parse_depth_def parse_depth_data_def parse_confidence_def
  parse_confidence_data_def reflect_index_def ndimage_convolve_def conv_filter_def
  smooth_center_def smooth_right_def smooth_left_def smooth_up_def smooth_down_def
  smoothen_depthmap_array_def np_array_def reshape_pose_def truthy_def Depthmap_init_def
  nf_neg_def nf_add_def nf_sub_def nf_mul_def nf_abs_def nf_div_def convert_2d_to_3d_def
  list_getitem_def convert_3d_to_2d_def shape_is_def matmul_row_def oriented_point_def
  convert_2d_to_3d_oriented_def vec_sub_def np_cross_def normalize_def normal_at_def
  calculate_normalmap_array_def nf_greater_def nf_less_def vec_y_def normal_cond_def
  height_cond_def detect_floor_def np_median_def row_major_def get_floor_level_def
  get_floor_level_spec_def dirs_def push_neighbour_def push_neighbours_def fill_step_def flood_fill.simps
  scan_pixel_def detect_objects_def sys_maxsize_def int_of_float_def distance_def
  select_step_def select_focus_def np_where_eq_def segment_child_def
  example_constants_def identity_pose_def array_of_def depthmap_of_array_def
  calibration_centre_def calibration_low_def cross_frame_def speck_frame_def wall_frame_def
  slope_frame_def trio_frame_def example_buffer_def floor_mask_of_def objects_of_def normals_of_def child_mask_of_def
  upt_conv_Cons Let_def numeral_2_eq_2 [symmetric] numeral_3_eq_3 [symmetric]
  sum.sel

subsection \<open>Claim C1: one label per pixel after the flood fill\<close>

text \<open>
  Claim C1 says that a pixel labelled \<^verbatim>\<open>MASK_FLOOR\<close> or \<^verbatim>\<open>MASK_INVALID\<close> by
  \<^verbatim>\<open>detect_floor\<close> is never relabelled to a segment id, because a neighbour would be pushed
  only while it is unlabelled. The code tests the label of the pixel it pops, not of the
  neighbour it pushes, and labels every pixel it pops. Counterexample on \<open>cross_frame\<close>:
  the four arms of the cross are \<^verbatim>\<open>MASK_INVALID\<close> (3) after \<^verbatim>\<open>detect_floor\<close> and carry the
  segment id \<open>-1\<close> after \<^verbatim>\<open>detect_objects\<close>.
\<close>

theorem flood_fill_relabels_invalid:
  "floor_mask_of example_constants cross_frame 0 = Inr [[3, 3, 3], [3, 0, 3], [3, 3, 3]]
   \<and> objects_of example_constants cross_frame 0
       = Some (Inr ([[3, - 1, 3], [- 1, - 1, - 1], [3, - 1, 3]],
                    [\<lparr>segment_id = - 1, aabb = (0, 0, 2, 2)\<rparr>]))"
  by (simp add: evals cong: bindE_weak_cong let_weak_cong)

text \<open>
  Claim C1, as amended. \<^verbatim>\<open>detect_objects\<close> always ends, with a result or an exception.
  In the mask that it returns every pixel holds exactly one label: a negative segment id,
  or the label \<^verbatim>\<open>MASK_FLOOR\<close> or \<^verbatim>\<open>MASK_INVALID\<close> that \<^verbatim>\<open>detect_floor\<close> gave it and no
  fill has overwritten; no pixel is left at \<open>0\<close>.
\<close>

theorem detect_objects_one_label:
  assumes floor: "detect_floor K d floor_arg = Inr fm"
  shows "\<exists>r. detect_objects K d floor_arg = Some r
           \<and> (\<forall>m segs p. r = Inr (m, segs) \<and> in_grid fm p \<longrightarrow>
                 in_grid m p
               \<and> (cells m p < 0
                  \<or> (cells m p = cells fm p \<and> cells m p \<noteq> 0
                      \<and> (cells m p = MASK_FLOOR K \<or> cells m p = MASK_INVALID K))))"
proof -
  obtain r where r: "detect_objects K d floor_arg = Some r"
    using detect_objects_terminates by blast
  have "in_grid m p
      \<and> (cells m p < 0
         \<or> (cells m p = cells fm p \<and> cells m p \<noteq> 0
             \<and> (cells m p = MASK_FLOOR K \<or> cells m p = MASK_INVALID K)))"
    if "r = Inr (m, segs)" "in_grid fm p" for m segs p
    using detect_objects_labels [OF floor _ that(2), of m segs] r that(1) by simp
  with r show ?thesis by blast
qed

text \<open>
  Witness of claim C1 as amended, on \<open>cross_frame\<close> at the centre pixel.
\<close>

theorem detect_objects_one_label_witness:
  "detect_floor example_constants (projr cross_frame) 0
     = Inr \<lparr>dim0 = 3, dim1 = 3, rows = [[3, 3, 3], [3, 0, 3], [3, 3, 3]]\<rparr>
   \<and> detect_objects example_constants (projr cross_frame) 0
     = Some (Inr (\<lparr>dim0 = 3, dim1 = 3, rows = [[3, - 1, 3], [- 1, - 1, - 1], [3, - 1, 3]]\<rparr>,
                  [\<lparr>segment_id = - 1, aabb = (0, 0, 2, 2)\<rparr>]))
   \<and> in_grid \<lparr>dim0 = 3, dim1 = 3, rows = [[3, 3, 3], [3, 0, 3], [3, 3, 3 :: int]]\<rparr> (1, 1)
   \<and> cells \<lparr>dim0 = 3, dim1 = 3, rows = [[3, - 1, 3], [- 1, - 1, - 1], [3, - 1, 3 :: int]]\<rparr> (1, 1) < 0"
proof -
  let ?fm = "\<lparr>dim0 = 3, dim1 = 3, rows = [[3, 3, 3], [3, 0, 3], [3, 3, 3 :: int]]\<rparr>"
  let ?m = "\<lparr>dim0 = 3, dim1 = 3, rows = [[3, - 1, 3], [- 1, - 1, - 1], [3, - 1, 3 :: int]]\<rparr>"
  have h1: "detect_floor example_constants (projr cross_frame) 0 = Inr ?fm"
    by (simp add: evals cong: bindE_weak_cong let_weak_cong)
  have h2: "detect_objects example_constants (projr cross_frame) 0
     = Some (Inr (?m, [\<lparr>segment_id = - 1, aabb = (0, 0, 2, 2)\<rparr>]))"
    by (simp add: evals cong: bindE_weak_cong let_weak_cong)
  have h3: "in_grid ?fm (1, 1)" by (simp add: in_grid_def)
  from detect_objects_one_label [OF h1] h2 h3
  have "in_grid ?m (1, 1)" by auto
  with h1 h2 h3 show ?thesis by (simp add: cells_def)
qed

subsection \<open>Claim C2: the floor level\<close>

text \<open>
  Claim C2 says that \<^verbatim>\<open>get_floor_level\<close> takes the median over the pixels that pass the
  floor test of \<^verbatim>\<open>detect_floor\<close> with a floor estimate of \<open>0\<close>, the height test
  included. Counterexample on \<open>slope_frame\<close>: the pixel \<open>(1, 1)\<close> has \<open>|normal_y| = 3/4\<close>
  and \<open>y = 5\<close>, so it fails the height test; the code returns \<open>5\<close>, the median in the
  words of the specification is that of an empty selection (NaN).
\<close>

theorem floor_level_ignores_height:
  "bindE slope_frame get_floor_level = Inr (Some 5)
   \<and> bindE slope_frame get_floor_level_spec = Inr None"
  by (simp add: evals cong: bindE_weak_cong let_weak_cong)

text \<open>
  Claim C2, as amended. \<^verbatim>\<open>get_floor_level\<close> returns the median of the world-space y of
  exactly the pixels with \<open>|normal_y| > 0.5\<close>, the normals computed from the smoothed depth
  array; it applies no height test. The normal test is the one of \<^verbatim>\<open>detect_floor\<close>, which
  labels a pixel \<^verbatim>\<open>MASK_FLOOR\<close> when it passes this test and the height test against its
  floor estimate.
\<close>

theorem get_floor_level_uses_normal_test_only:
  assumes "get_floor_level d = Inr r"
  shows "\<exists>points_3d_arr normal.
           convert_2d_to_3d_oriented d True = Inr points_3d_arr
         \<and> calculate_normalmap_array d points_3d_arr = Inr normal
         \<and> int (dim0 points_3d_arr) = width d \<and> int (dim1 points_3d_arr) = height d
         \<and> r = np_median (map (\<lambda>p. vec_y (cells points_3d_arr p))
                  (filter (\<lambda>p. nf_greater (nf_abs (vec_y (cells normal p))) (1 / 2))
                     (row_major points_3d_arr)))
         \<and> (\<exists>fm. detect_floor K d floor_arg = Inr fm
              \<and> (\<forall>p. in_grid fm p \<longrightarrow> cells fm p =
                    (if nf_greater (nf_abs (vec_y (cells normal p))) (1 / 2)
                        \<and> nf_less (nf_sub (vec_y (cells points_3d_arr p)) (Some floor_arg)) (1 / 10)
                     then MASK_FLOOR K
                     else if cells (depthmap_arr_smooth d) p = 0 then MASK_INVALID K else 0)))"
proof -
  from assms obtain mask0 :: "int ndarray" and points_3d_arr normal where
    z: "np_zeros (width d) (height d) = Inr mask0"
    and sh: "shape_is (depthmap_arr_smooth d) (width d) (height d)"
    and pts: "convert_2d_to_3d_oriented d True = Inr points_3d_arr"
    and nrm: "calculate_normalmap_array d points_3d_arr = Inr normal"
    and r: "r = np_median (map (\<lambda>p. vec_y (cells points_3d_arr p))
                  (filter (normal_cond normal) (row_major points_3d_arr)))"
    by (auto simp: get_floor_level_def bindE_Inr_iff Let_def split: if_splits)
  from z have w: "0 \<le> width d" "0 \<le> height d"
    and m0: "mask0 = tabulate (nat (width d)) (nat (height d)) (\<lambda>_. 0)"
    by (auto simp: np_zeros_def split: if_splits)
  from pts sh have dims: "int (dim0 points_3d_arr) = width d" "int (dim1 points_3d_arr) = height d"
    by (auto simp: convert_2d_to_3d_oriented_def shape_is_def Let_def split: if_splits)
  have nc: "normal_cond normal = (\<lambda>p. nf_greater (nf_abs (vec_y (cells normal p))) (1 / 2))"
    by (rule ext) (simp add: normal_cond_def)
  let ?z = "tabulate (nat (width d)) (nat (height d)) (\<lambda>_. 0 :: int)"
  let ?fm = "tabulate (nat (width d)) (nat (height d))
      (\<lambda>p. if normal_cond normal p \<and> height_cond points_3d_arr floor_arg p then MASK_FLOOR K
           else cells (tabulate (nat (width d)) (nat (height d))
                  (\<lambda>p. if cells (depthmap_arr_smooth d) p = 0 then MASK_INVALID K
                       else cells ?z p)) p)"
  have z': "np_zeros (width d) (height d) = Inr ?z" using z m0 by simp
  have fm: "detect_floor K d floor_arg = Inr ?fm"
    unfolding detect_floor_def z' bindE_Inr Let_def dims_tabulate pts nrm
    using sh by simp
  have "cells ?fm p =
      (if nf_greater (nf_abs (vec_y (cells normal p))) (1 / 2)
          \<and> nf_less (nf_sub (vec_y (cells points_3d_arr p)) (Some floor_arg)) (1 / 10)
       then MASK_FLOOR K
       else if cells (depthmap_arr_smooth d) p = 0 then MASK_INVALID K else 0)"
    if "in_grid ?fm p" for p
  proof -
    from that have g: "fst p < nat (width d)" "snd p < nat (height d)"
      by (simp_all add: in_grid_def)
    then show ?thesis
      by (simp add: cells_tabulate_in_grid normal_cond_def height_cond_def)
  qed
  with fm pts nrm dims r nc show ?thesis by auto
qed

text \<open>
  Witness of claim C2 as amended, on \<open>slope_frame\<close>.
\<close>

theorem get_floor_level_uses_normal_test_only_witness:
  "get_floor_level (projr slope_frame) = Inr (Some 5)
   \<and> (\<exists>fm. detect_floor example_constants (projr slope_frame) 0 = Inr fm)"
proof -
  have h: "get_floor_level (projr slope_frame) = Inr (Some 5)"
    by (simp add: evals cong: bindE_weak_cong let_weak_cong)
  from get_floor_level_uses_normal_test_only [OF h, of example_constants 0] h
  show ?thesis by blast
qed

subsection \<open>Claim C3: no accepted segment\<close>

text \<open>
  Claim C3 says that \<^verbatim>\<open>segment_child\<close> relabels nothing when no segment was accepted.
  The initial value \<open>-1\<close> of \<open>focus\<close> is also the id of the first segment: on
  \<open>speck_frame\<close> the only segment is the pixel \<open>(0, 0)\<close>, it is rejected for its size, and
  \<^verbatim>\<open>segment_child\<close> still turns it into \<^verbatim>\<open>MASK_CHILD\<close> (2).
\<close>

theorem rejected_first_segment_becomes_child:
  "objects_of example_constants speck_frame 0 = Some (Inr ([[- 1, 3], [3, 3]], []))
   \<and> child_mask_of example_constants speck_frame 0 = Some (Inr ([[2, 3], [3, 3]]))"
  by (simp add: evals cong: bindE_weak_cong let_weak_cong)

subsection \<open>Claim C4: the selected segment\<close>

text \<open>
  Claim C4. When \<^verbatim>\<open>detect_objects\<close> accepts at least one segment, \<^verbatim>\<open>segment_child\<close> picks
  the accepted segment whose four bounding-box corners \<open>(x0, y0)\<close>, \<open>(x0, y1)\<close>, \<open>(x1, y0)\<close>,
  \<open>(x1, y1)\<close> have the least sum of squared pixel distances to the image centre
  \<open>(width div 2, height div 2)\<close>, the first of them in discovery order on a tie, and
  returns the mask in which exactly the pixels that carried its id hold \<^verbatim>\<open>MASK_CHILD\<close>.
  The sum over the four corners is written out in the statement; it is twice the value
  \<open>a * a + b * b + c * c + d * d\<close> that the loop compares.

  The loop starts with \<open>closest = sys.maxsize\<close> and selects a segment only when its value
  is below \<open>closest\<close>, so the statement is about images of at most \<open>10^9\<close> pixels in width
  and in height: there every value is below \<^verbatim>\<open>sys.maxsize\<close>.
\<close>

theorem segment_child_selects_closest:
  fixes d :: Depthmap and D :: "Segment \<Rightarrow> int"
  defines "D \<equiv> \<lambda>s. case aabb s of (x0, y0, x1, y1) \<Rightarrow>
            (\<Sum>(px, py)\<leftarrow>[(x0, y0), (x0, y1), (x1, y0), (x1, y1)].
               (px - width d div 2)\<^sup>2 + (py - height d div 2)\<^sup>2)"
  assumes run: "detect_objects K d floor_arg = Some (Inr (m, segs))"
    and accepted: "segs \<noteq> []"
    and size: "width d \<le> 10 ^ 9" "height d \<le> 10 ^ 9"
  shows "\<exists>i < length segs. \<exists>child.
           (\<forall>s \<in> set segs. D (segs ! i) \<le> D s)
         \<and> (\<forall>j < i. D (segs ! i) < D (segs ! j))
         \<and> segment_child K d floor_arg = Some (Inr child)
         \<and> dim0 child = dim0 m \<and> dim1 child = dim1 m
         \<and> (\<forall>p. in_grid m p \<longrightarrow> cells child p =
               (if cells m p = segment_id (segs ! i) then MASK_CHILD K else cells m p))"
proof -
  from run obtain fm where floor: "detect_floor K d floor_arg = Inr fm"
    by (cases "detect_floor K d floor_arg") (auto simp: detect_objects_def)
  note f = detect_floor_cells [OF floor]
  have w: "0 \<le> width d" "0 \<le> height d" using f(2,3) by linarith+
  have D: "D s = 2 * distance d s" for s
    unfolding D_def by (rule corner_sum_distance [OF w])
  from accepted obtain g where g: "g \<in> set segs" by (cases segs) auto
  with detect_objects_boxes [OF floor run]
  have "box_in (dim0 fm) (dim1 fm) (aabb g)" by (simp add: list_all_iff)
  from distance_bound [OF this f(2,3)]
  have b: "2 * distance d g \<le> 9 * (width d * width d + height d * height d)" .
  have "width d * width d \<le> 10 ^ 9 * 10 ^ 9"
    using w(1) size(1) by (intro mult_mono) auto
  moreover have "height d * height d \<le> 10 ^ 9 * 10 ^ 9"
    using w(2) size(2) by (intro mult_mono) auto
  ultimately have "distance d g < sys_maxsize" using b by (simp add: sys_maxsize_def)
  with g have "\<exists>s \<in> set segs. distance d s < sys_maxsize" by blast
  from segment_child_selects [OF run this] show ?thesis by (simp only: D) simp
qed

text \<open>
  Witness of claim C4, on \<open>trio_frame\<close>: three segments are accepted, with corner sums
  of 30, 8 and 8 about the centre \<open>(1, 3)\<close>. The second segment is selected: it is closer
  than the first and ties with the third, which was discovered later.
\<close>

theorem segment_child_selects_closest_witness:
  "detect_objects example_constants (projr trio_frame) (- 10)
     = Some (Inr (\<lparr>dim0 = 3, dim1 = 7,
                    rows = [[3, - 1, - 2, 3, - 3, 3, 3],
                            [- 1, - 1, - 2, 3, - 3, 3, 3],
                            [3, - 1, - 2, 3, - 3, 3, 3]]\<rparr>,
                  [\<lparr>segment_id = - 1, aabb = (0, 0, 2, 1)\<rparr>,
                   \<lparr>segment_id = - 2, aabb = (0, 2, 2, 2)\<rparr>,
                   \<lparr>segment_id = - 3, aabb = (0, 4, 2, 4)\<rparr>]))
   \<and> width (projr trio_frame) \<le> 10 ^ 9 \<and> height (projr trio_frame) \<le> 10 ^ 9
   \<and> (\<exists>child. segment_child example_constants (projr trio_frame) (- 10) = Some (Inr child)
        \<and> cells child (1, 1) = - 1
        \<and> cells child (1, 2) = MASK_CHILD example_constants
        \<and> cells child (1, 4) = - 3)"
proof -
  let ?d = "projr trio_frame"
  let ?m = "\<lparr>dim0 = 3, dim1 = 7,
             rows = [[3, - 1, - 2, 3, - 3, 3, 3],
                     [- 1, - 1, - 2, 3, - 3, 3, 3],
                     [3, - 1, - 2, 3, - 3, 3, 3 :: int]]\<rparr>"
  let ?s1 = "\<lparr>segment_id = - 1, aabb = (0, 0, 2, 1)\<rparr>"
  let ?s2 = "\<lparr>segment_id = - 2, aabb = (0, 2, 2, 2)\<rparr>"
  let ?s3 = "\<lparr>segment_id = - 3, aabb = (0, 4, 2, 4)\<rparr>"
  let ?segs = "[?s1, ?s2, ?s3]"
  let ?D = "\<lambda>s. case aabb s of (x0, y0, x1, y1) \<Rightarrow>
            (\<Sum>(px, py)\<leftarrow>[(x0, y0), (x0, y1), (x1, y0), (x1, y1)].
               (px - width ?d div 2)\<^sup>2 + (py - height ?d div 2)\<^sup>2)"
  have h1: "detect_objects example_constants ?d (- 10) = Some (Inr (?m, ?segs))"
    by (simp add: evals cong: bindE_weak_cong let_weak_cong)
  have h2: "?segs \<noteq> []" by simp
  have wh: "width ?d = 3" "height ?d = 7"
    by (simp_all add: evals cong: bindE_weak_cong let_weak_cong)
  have h3: "width ?d \<le> 10 ^ 9" "height ?d \<le> 10 ^ 9" by (simp_all add: wh)
  have D: "?D ?s1 = 30" "?D ?s2 = 8" "?D ?s3 = 8" by (simp_all add: wh)
  from segment_child_selects_closest [OF h1 h2 h3]
  obtain i child where i: "i < length ?segs"
    and lo: "\<forall>s \<in> set ?segs. ?D (?segs ! i) \<le> ?D s"
    and first: "\<forall>j < i. ?D (?segs ! i) < ?D (?segs ! j)"
    and c: "segment_child example_constants ?d (- 10) = Some (Inr child)"
    and cl: "\<forall>p. in_grid ?m p \<longrightarrow> cells child p =
               (if cells ?m p = segment_id (?segs ! i) then MASK_CHILD example_constants else cells ?m p)"
    by blast
  from i have "i = 0 \<or> i = 1 \<or> i = 2" by auto
  moreover have "i \<noteq> 0"
  proof
    assume "i = 0"
    moreover from lo have "?D (?segs ! i) \<le> ?D ?s2" by simp
    ultimately have "?D ?s1 \<le> ?D ?s2" by simp
    with D show False by simp
  qed
  moreover have "i \<noteq> 2"
  proof
    assume "i = 2"
    moreover from first have "1 < i \<longrightarrow> ?D (?segs ! i) < ?D (?segs ! 1)" by blast
    ultimately have "?D ?s3 < ?D ?s2" by simp
    with D show False by simp
  qed
  ultimately have i1: "i = 1" by blast
  have "cells child (1, 1) = - 1" "cells child (1, 2) = MASK_CHILD example_constants"
      "cells child (1, 4) = - 3"
    using cl [rule_format, of "(1, 1)"] cl [rule_format, of "(1, 2)"] cl [rule_format, of "(1, 4)"]
    by (simp_all add: i1 in_grid_def cells_def)
  with h1 h3 c show ?thesis by blast
qed

subsection \<open>Claim C5: reads inside the grid\<close>

text \<open>
  Claim C5 says that the flood fill reads no neighbour outside the grid. The code reads
  the four neighbours of every pixel it expands without a bounds test: on \<open>wall_frame\<close>
  the read at \<open>y + 1 = height\<close> raises IndexError, after the read at \<open>x - 1 = -1\<close> from
  the seed \<open>(0, 0)\<close> has wrapped to the opposite border and returned a depth.
\<close>

theorem flood_fill_leaves_grid:
  "objects_of example_constants wall_frame 0 = Some (Inl IndexError)
   \<and> bindE wall_frame (\<lambda>d. getitem (depthmap_arr d) (0 + fst (hd dirs)) (0 + snd (hd dirs))) = Inr 1"
  by (simp add: evals cong: bindE_weak_cong let_weak_cong)

subsection \<open>Claim C6: the decoded depth array\<close>

text \<open>
  Claim C6. For a buffer of at least \<open>width * height * 3\<close> bytes the decoder returns an array
  of shape \<open>(width, height)\<close> whose pixel \<open>(x, y)\<close> is
  \<open>((data[(y*width+x)*3] << 8) | data[(y*width+x)*3+1]) * depth_scale\<close> for \<open>x, y \<ge> 1\<close>
  and \<open>0\<close> on the border \<open>x < 1\<close> or \<open>y < 1\<close>.
\<close>

theorem parse_depth_data_decodes:
  assumes "0 \<le> w" and "0 \<le> h" and "w * h * 3 \<le> int (length data)"
  shows "\<exists>output. parse_depth_data w h scale data = Inr output
           \<and> dim0 output = nat w \<and> dim1 output = nat h
           \<and> (\<forall>x y. 0 \<le> x \<and> x < w \<and> 0 \<le> y \<and> y < h \<longrightarrow>
                 getitem output x y =
                   Inr (if x < 1 \<or> y < 1 then 0
                        else real_of_int (push_bit 8 (uint (data ! nat ((y * w + x) * 3)))
                                           OR uint (data ! nat ((y * w + x) * 3 + 1))) * scale))"
proof -
  let ?f = "\<lambda>x y. if x < 1 \<or> y < 1 then 0
               else real_of_int (push_bit 8 (uint (data ! nat ((y * w + x) * 3)))
                                  OR uint (data ! nat ((y * w + x) * 3 + 1))) * scale"
  let ?z = "tabulate (nat w) (nat h) (\<lambda>_. 0::real)"
  have z: "np_zeros w h = Inr ?z" using assms by (simp add: np_zeros_def)
  have g: "\<forall>x \<in> set (py_range w). \<forall>y \<in> set (py_range h).
             0 \<le> y \<and> y < int (dim1 ?z) \<and> parse_depth w h scale data x y = Inr (?f x y)"
  proof (intro ballI)
    fix x y assume "x \<in> set (py_range w)" "y \<in> set (py_range h)"
    then have r: "0 \<le> x" "x < w" "0 \<le> y" "y < h" by (auto simp: set_py_range)
    from pixel_offset_bound [OF r] assms(3)
    have i: "0 \<le> (y * w + x) * 3" "(y * w + x) * 3 + 1 < int (length data)" by auto
    have "parse_depth w h scale data x y = Inr (?f x y)"
    proof (cases "x < 1 \<or> y < 1")
      case True
      then show ?thesis by (auto simp: parse_depth_def)
    next
      case False
      have "parse_depth w h scale data x y =
              Inr (real_of_int (push_bit 8 (uint (data ! nat ((y * w + x) * 3)))
                                + uint (data ! nat ((y * w + x) * 3 + 1))) * scale)"
        using False r i by (simp add: parse_depth_def bytes_getitem_def norm_index_in_range)
      with False show ?thesis by (simp only: shift_add_eq_or if_False)
    qed
    with r show "0 \<le> y \<and> y < int (dim1 ?z) \<and> parse_depth w h scale data x y = Inr (?f x y)"
      by simp
  qed
  have xs: "\<forall>x \<in> set (py_range w). 0 \<le> x \<and> x < int (dim0 ?z)"
    by (auto simp: set_py_range)
  from fill_rows [of ?z "py_range w" "py_range h" "parse_depth w h scale data" ?f, OF _ xs g]
  obtain out' where res: "for_each (py_range w) (\<lambda>x acc. for_each (py_range h)
        (\<lambda>y acc. bindE (parse_depth w h scale data x y) (\<lambda>v. setitem acc x y v)) acc) ?z = Inr out'"
    "dim0 out' = nat w" "dim1 out' = nat h"
    "\<forall>p. in_grid ?z p \<longrightarrow> cells out' p =
        (if int (fst p) \<in> set (py_range w) \<and> int (snd p) \<in> set (py_range h)
         then ?f (int (fst p)) (int (snd p)) else cells ?z p)"
    by auto
  have p: "parse_depth_data w h scale data = Inr out'"
    by (simp add: parse_depth_data_def z res(1))
  have "\<forall>x y. 0 \<le> x \<and> x < w \<and> 0 \<le> y \<and> y < h \<longrightarrow> getitem out' x y = Inr (?f x y)"
  proof (intro allI impI)
    fix x y assume r: "0 \<le> x \<and> x < w \<and> 0 \<le> y \<and> y < h"
    then have "in_grid ?z (nat x, nat y)" by (auto simp: in_grid_def)
    with res(4) r have "cells out' (nat x, nat y) = ?f x y"
      by (auto simp: set_py_range)
    moreover have "getitem out' x y = Inr (cells out' (nat x, nat y))"
      using r res(2,3) by (intro getitem_in_range) auto
    ultimately show "getitem out' x y = Inr (?f x y)" by simp
  qed
  with p res(2,3) show ?thesis by blast
qed

text \<open>
  Witness of claim C6, on the twelve bytes of \<open>example_buffer\<close>.
\<close>

theorem parse_depth_data_decodes_witness:
  "(0 :: int) \<le> 2 \<and> (2 :: int) * 2 * 3 \<le> int (length example_buffer)
   \<and> (\<exists>output. parse_depth_data 2 2 (1 / 1000) example_buffer = Inr output
         \<and> getitem output 1 1 = Inr (258 / 1000) \<and> getitem output 0 1 = Inr 0)"
proof -
  have h: "(2 :: int) * 2 * 3 \<le> int (length example_buffer)"
    by (simp add: example_buffer_def)
  from parse_depth_data_decodes [of 2 2 example_buffer "1 / 1000", OF _ _ h]
  obtain out where o: "parse_depth_data 2 2 (1 / 1000) example_buffer = Inr out"
    and c: "\<forall>x y. 0 \<le> x \<and> x < 2 \<and> 0 \<le> y \<and> y < 2 \<longrightarrow>
                 getitem out x y =
                   Inr (if x < 1 \<or> y < 1 then 0
                        else real_of_int (push_bit 8 (uint (example_buffer ! nat ((y * 2 + x) * 3)))
                                           OR uint (example_buffer ! nat ((y * 2 + x) * 3 + 1))) * (1 / 1000))"
    by auto
  from c [rule_format, of 1 1] have "getitem out 1 1 = Inr (258 / 1000)"
    by (simp add: example_buffer_def)
  moreover from c [rule_format, of 0 1] have "getitem out 0 1 = Inr 0" by simp
  ultimately show ?thesis using o h by auto
qed

subsection \<open>Claim C7: zeros of the smoothed array\<close>

text \<open>
  Claim C7. In the array returned by \<^verbatim>\<open>smoothen_depthmap_array\<close>, a pixel is exactly \<open>0\<close>
  when it is \<open>0\<close> in the input or one of its four direct neighbours inside the array is:
  a zero of the input never becomes nonzero.
\<close>

theorem smoothen_zero_near_zero:
  assumes "in_grid image_arr p"
    and "cells image_arr p = 0
       \<or> (1 \<le> fst p \<and> cells image_arr (fst p - 1, snd p) = 0)
       \<or> (fst p + 1 < dim0 image_arr \<and> cells image_arr (fst p + 1, snd p) = 0)
       \<or> (1 \<le> snd p \<and> cells image_arr (fst p, snd p - 1) = 0)
       \<or> (snd p + 1 < dim1 image_arr \<and> cells image_arr (fst p, snd p + 1) = 0)"
  shows "in_grid (smoothen_depthmap_array image_arr) p \<and> cells (smoothen_depthmap_array image_arr) p = 0"
proof -
  from assms(1) have g: "fst p < dim0 image_arr" "snd p < dim1 image_arr"
    by (simp_all add: in_grid_def)
  have m: "smooth_center image_arr p \<or> smooth_right image_arr p \<or> smooth_left image_arr p
          \<or> smooth_up image_arr p \<or> smooth_down image_arr p"
    using assms(2)
    by (auto simp: smooth_center_def smooth_right_def smooth_left_def smooth_up_def smooth_down_def)
  have "cells (smoothen_depthmap_array image_arr) p = 0"
    unfolding smoothen_depthmap_array_def Let_def
    using g m by (simp add: cells_tabulate_in_grid ndimage_convolve_def)
  with g show ?thesis by (simp add: in_grid_def)
qed

text \<open>
  Witness of claim C7: the pixel \<open>(0, 1)\<close> of the cross has the zero neighbour \<open>(0, 0)\<close>.
\<close>

theorem smoothen_zero_near_zero_witness:
  "in_grid (array_of [[0, 1, 0], [1, 1, 1], [0, 1, 0 :: real]]) (0, 1)
   \<and> cells (array_of [[0, 1, 0], [1, 1, 1], [0, 1, 0 :: real]]) (0, 1 - 1) = 0
   \<and> cells (smoothen_depthmap_array (array_of [[0, 1, 0], [1, 1, 1], [0, 1, 0]])) (0, 1) = 0"
proof -
  let ?a = "array_of [[0, 1, 0], [1, 1, 1], [0, 1, 0 :: real]]"
  have h1: "in_grid ?a (0, 1)" by (simp add: in_grid_def array_of_def)
  have z: "cells ?a (0, 1 - 1) = 0" by (simp add: cells_def array_of_def)
  then have h2: "cells ?a (0, 1) = 0
       \<or> (1 \<le> fst (0 :: nat, 1 :: nat) \<and> cells ?a (fst (0 :: nat, 1 :: nat) - 1, snd (0 :: nat, 1 :: nat)) = 0)
       \<or> (fst (0 :: nat, 1 :: nat) + 1 < dim0 ?a \<and> cells ?a (fst (0 :: nat, 1 :: nat) + 1, snd (0 :: nat, 1 :: nat)) = 0)
       \<or> (1 \<le> snd (0 :: nat, 1 :: nat) \<and> cells ?a (fst (0 :: nat, 1 :: nat), snd (0 :: nat, 1 :: nat) - 1) = 0)
       \<or> (snd (0 :: nat, 1 :: nat) + 1 < dim1 ?a \<and> cells ?a (fst (0 :: nat, 1 :: nat), snd (0 :: nat, 1 :: nat) + 1) = 0)"
    by simp
  from smoothen_zero_near_zero [OF h1 h2] h1 z show ?thesis by simp
qed

subsection \<open>Claim C8: projection round trip\<close>

text \<open>
  Claim C8. With \<open>fx \<noteq> 0\<close>, \<open>fy \<noteq> 0\<close> and a nonzero depth, \<^verbatim>\<open>convert_3d_to_2d\<close> applied
  to the point that \<^verbatim>\<open>convert_2d_to_3d\<close> returns for \<open>(x, y, depth)\<close> gives back
  \<open>[x, y, depth]\<close>. The numbers \<open>i0, i1, i2, i3\<close> are the row of the sensor in the
  intrinsics.
\<close>

theorem pixel_roundtrip:
  assumes g: "getitem (intrinsics d) s 0 = Inr i0" "getitem (intrinsics d) s 1 = Inr i1"
      "getitem (intrinsics d) s 2 = Inr i2" "getitem (intrinsics d) s 3 = Inr i3"
    and fx: "i0 * real_of_int (width d) \<noteq> 0"
    and fy: "i1 * real_of_int (height d) \<noteq> 0"
    and depth: "depth \<noteq> 0"
  shows "\<exists>tx ty. convert_2d_to_3d d s x y depth = Inr (Some tx, Some ty, Some depth)
           \<and> convert_3d_to_2d [i0, i1, i2, i3] tx ty depth (width d) (height d) = Inr [x, y, depth]"
proof -
  have l: "list_getitem [i0, i1, i2, i3] 0 = Inr i0" "list_getitem [i0, i1, i2, i3] 1 = Inr i1"
      "list_getitem [i0, i1, i2, i3] 2 = Inr i2" "list_getitem [i0, i1, i2, i3] 3 = Inr i3"
    by (simp_all add: list_getitem_def norm_index_def)
  let ?fx = "i0 * real_of_int (width d)" and ?fy = "i1 * real_of_int (height d)"
  let ?cx = "i2 * real_of_int (width d)" and ?cy = "i3 * real_of_int (height d)"
  let ?tx = "(x - ?cx) * depth / ?fx" and ?ty = "(y - ?cy) * depth / ?fy"
  have a: "convert_2d_to_3d d s x y depth = Inr (Some ?tx, Some ?ty, Some depth)"
    using fx fy by (simp add: convert_2d_to_3d_def g nf_div_def Let_def)
  have bx: "?tx * ?fx / depth + ?cx = x" using fx depth by (simp add: field_simps)
  have by': "?ty * ?fy / depth + ?cy = y" using fy depth by (simp add: field_simps)
  have b: "convert_3d_to_2d [i0, i1, i2, i3] ?tx ?ty depth (width d) (height d) = Inr [x, y, depth]"
    unfolding convert_3d_to_2d_def l bindE_Inr Let_def using depth bx by' by simp
  from a b show ?thesis by blast
qed

text \<open>
  Witness of claim C8, with the depth sensor of \<open>slope_frame\<close>.
\<close>

theorem pixel_roundtrip_witness:
  "getitem (intrinsics (projr slope_frame)) 1 0 = Inr (1 / 2)
   \<and> (1 / 2) * real_of_int (width (projr slope_frame)) \<noteq> 0
   \<and> (5 :: real) \<noteq> 0
   \<and> convert_2d_to_3d (projr slope_frame) 1 1 1 5 = Inr (Some 5, Some (- 5), Some 5)
   \<and> convert_3d_to_2d [1 / 2, 1 / 2, 0, 1] 5 (- 5) 5 2 2 = Inr [1, 1, 5]"
proof -
  let ?d = "projr slope_frame"
  have g: "getitem (intrinsics ?d) 1 0 = Inr (1 / 2)" "getitem (intrinsics ?d) 1 1 = Inr (1 / 2)"
      "getitem (intrinsics ?d) 1 2 = Inr 0" "getitem (intrinsics ?d) 1 3 = Inr 1"
    by (simp_all add: evals cong: bindE_weak_cong let_weak_cong)
  have w: "width ?d = 2" "height ?d = 2"
    by (simp_all add: evals cong: bindE_weak_cong let_weak_cong)
  have fx: "(1 / 2) * real_of_int (width ?d) \<noteq> 0" "(1 / 2) * real_of_int (height ?d) \<noteq> 0"
    by (simp_all add: w)
  have dp: "(5 :: real) \<noteq> 0" by simp
  from pixel_roundtrip [OF g fx dp, of 1 1]
  obtain tx ty where a: "convert_2d_to_3d ?d 1 1 1 5 = Inr (Some tx, Some ty, Some 5)"
    and b: "convert_3d_to_2d [1 / 2, 1 / 2, 0, 1] tx ty 5 (width ?d) (height ?d) = Inr [1, 1, 5]"
    by blast
  have "convert_2d_to_3d ?d 1 1 1 5 = Inr (Some 5, Some (- 5), Some 5)"
    by (simp add: convert_2d_to_3d_def g w nf_div_def)
  with a have "tx = 5" "ty = - 5" by simp_all
  with a b g(1) fx(1) dp w show ?thesis by simp
qed

subsection \<open>Claim C9: normals\<close>

text \<open>
  Claim C9 says that every nonzero normal produced by \<^verbatim>\<open>calculate_normalmap_array\<close> has
  \<open>|nx| + |ny| + |nz| = 1\<close>, and the docstring of \<^verbatim>\<open>normalize\<close> promises the same. On
  \<open>cross_frame\<close> the smoothed depth is zero except at the centre pixel, the two edge vectors
  of each of the four inner pixels are parallel or zero, their cross product is the zero
  vector, and \<^verbatim>\<open>normalize\<close> divides it by its length \<open>0\<close>: the four normals are NaN in every
  component. They are not the zero normal and their absolute values do not sum to 1.
\<close>

theorem zero_cross_product_normal_is_nan:
  "normals_of cross_frame
     = Inr [[(Some 0, Some 0, Some 0), (Some 0, Some 0, Some 0), (Some 0, Some 0, Some 0)],
            [(Some 0, Some 0, Some 0), (None, None, None), (None, None, None)],
            [(Some 0, Some 0, Some 0), (None, None, None), (None, None, None)]]
   \<and> normalize (Some 0, Some 0, Some 0) = (None, None, None)"
  by (simp add: evals cong: bindE_weak_cong let_weak_cong)

text \<open>
  What holds of the normal map: the pixels of row \<open>x = 0\<close> and of column \<open>y = 0\<close> get the
  zero normal, and a normal whose three components are numbers, not all zero, has
  \<open>|nx| + |ny| + |nz| = 1\<close>.
\<close>

lemma finite_normal_l1_and_border:
  assumes "calculate_normalmap_array d points_3d_arr = Inr normal"
    and "x < nat (width d)" and "y < nat (height d)"
  shows "(x = 0 \<or> y = 0 \<longrightarrow> cells normal (x, y) = (Some 0, Some 0, Some 0))
       \<and> (\<forall>a b c. cells normal (x, y) = (Some a, Some b, Some c) \<and> (a, b, c) \<noteq> (0, 0, 0)
            \<longrightarrow> \<bar>a\<bar> + \<bar>b\<bar> + \<bar>c\<bar> = 1)"
proof -
  from assms(1) have n: "normal = tabulate (nat (width d)) (nat (height d)) (normal_at d points_3d_arr)"
    by (simp add: calculate_normalmap_array_def Let_def split: if_splits)
  have c: "cells normal (x, y) = normal_at d points_3d_arr (x, y)"
    using assms(2,3) by (simp add: n cells_tabulate)
  show ?thesis
  proof (cases "1 \<le> x \<and> 1 \<le> y")
    case True
    then obtain v where "normal_at d points_3d_arr (x, y) = normalize v"
      by (simp add: normal_at_def Let_def)
    with c True show ?thesis by (auto dest: normalize_l1)
  next
    case False
    then have "normal_at d points_3d_arr (x, y) = (Some 0, Some 0, Some 0)"
      by (auto simp add: normal_at_def)
    with c False show ?thesis by auto
  qed
qed

subsection \<open>Claim C10: the two depth sources\<close>

text \<open>
  Claim C10. The constructor fails when both a byte buffer and a depth array are given, it
  fails when neither is given, and whenever it returns a Depthmap exactly one of the two
  was given.
\<close>

theorem depth_source_contract:
  "isl (Depthmap_init intr w h (Some bs) (Some arr) scale conf pose)
   \<and> isl (Depthmap_init intr w h None None scale conf pose)
   \<and> (Depthmap_init intr w h data depthmap_arr_arg scale conf pose = Inr d
        \<longrightarrow> (data = None) \<noteq> (depthmap_arr_arg = None))"
proof -
  have one: "(data = None) \<noteq> (depthmap_arr_arg = None)"
    if ok: "Depthmap_init intr w h data depthmap_arr_arg scale conf pose = Inr d"
  proof (cases data)
    case None
    with ok init_neither [of intr w h scale conf pose] show ?thesis
      by (cases depthmap_arr_arg) auto
  next
    case (Some b)
    show ?thesis
    proof (cases depthmap_arr_arg)
      case None
      with Some show ?thesis by simp
    next
      case (Some a)
      from init_both [of intr w h b a scale conf pose] ok \<open>data = Some b\<close> Some
      show ?thesis by simp
    qed
  qed
  from init_both init_neither one show ?thesis by blast
qed

text \<open>
  Witness of claim C10: both sources, no source, and the buffer alone, which decodes.
\<close>

theorem depth_source_contract_witness:
  "isl (Depthmap_init calibration_centre 2 2 (Some example_buffer)
          (Some (array_of [[1, 1], [1, 1]])) (1 / 1000) 7 (Some identity_pose))
   \<and> isl (Depthmap_init calibration_centre 2 2 None None (1 / 1000) 7 (Some identity_pose))
   \<and> Depthmap_init calibration_centre 2 2 (Some example_buffer) None (1 / 1000) 7 (Some identity_pose)
       = Inr (projr (Depthmap_init calibration_centre 2 2 (Some example_buffer) None (1 / 1000) 7
                       (Some identity_pose)))
   \<and> rows (depthmap_arr (projr (Depthmap_init calibration_centre 2 2 (Some example_buffer) None
                                   (1 / 1000) 7 (Some identity_pose))))
       = [[0, 0], [0, 258 / 1000]]"
proof -
  let ?r = "Depthmap_init calibration_centre 2 2 (Some example_buffer) None (1 / 1000) 7
              (Some identity_pose)"
  have ok: "\<not> isl ?r" and a: "rows (depthmap_arr (projr ?r)) = [[0, 0], [0, 258 / 1000]]"
    by (simp_all add: evals cong: bindE_weak_cong let_weak_cong)
  then have e: "?r = Inr (projr ?r)" by (cases ?r) simp_all
  from depth_source_contract [of calibration_centre 2 2 example_buffer "array_of [[1, 1], [1, 1]]"
      "1 / 1000" 7 "Some identity_pose" "Some example_buffer" None "projr ?r"] e a
  show ?thesis by simp
qed

end
